theory Spec2Isabelle
  imports Complex_Main "HOL-Library.AList"
begin

section \<open>Errors, tensors and arrays\<close>

text \<open>
  The exceptions that \<open>lux_ai/nns/models.py\<close> and the library calls it makes can raise.
  A function that can raise returns \<open>error + 'a\<close>, with \<open>Inl\<close> for the exception.
\<close>

datatype error = ValueError | AssertionError | RuntimeError | IndexError | KeyError | AttributeError

text \<open>
  A tensor (torch) or an array (numpy) is its shape and its entries in row-major order,
  the order of a contiguous tensor. Entries of floating-point tensors are modelled as
  reals: arithmetic is exact, rounding is not modelled.
\<close>

record 'a tensor =
  shape :: "nat list"
  data :: "'a list"

definition numel :: "'a tensor \<Rightarrow> nat" where
  "numel t = prod_list (shape t)"

text \<open>Comprehensions over a sequence: the first element that raises ends the evaluation.\<close>

fun mapE :: "('a \<Rightarrow> error + 'b) \<Rightarrow> 'a list \<Rightarrow> error + 'b list" where
  "mapE f [] = Inr []"
| "mapE f (x # xs) =
     (case f x of
        Inl e \<Rightarrow> Inl e
      | Inr y \<Rightarrow> (case mapE f xs of Inl e \<Rightarrow> Inl e | Inr ys \<Rightarrow> Inr (y # ys)))"

text \<open>
  \<open>ndarray.min()\<close> and \<open>ndarray.max()\<close>: numpy raises ValueError on an array with no
  entries (a reduction with no identity).
\<close>

definition np_min :: "int tensor \<Rightarrow> error + int" where
  "np_min a = (case data a of [] \<Rightarrow> Inl ValueError | x # xs \<Rightarrow> Inr (fold min xs x))"

definition np_max :: "int tensor \<Rightarrow> error + int" where
  "np_max a = (case data a of [] \<Rightarrow> Inl ValueError | x # xs \<Rightarrow> Inr (fold max xs x))"

section \<open>Action spaces\<close>

text \<open>
  The kinds of \<open>gym.spaces\<close> space an entry of the action-space Dict can be.
  \<open>MultiDiscrete\<close> carries its array \<open>nvec\<close> of per-position action counts; its shape is
  the shape of \<open>nvec\<close>. The Dict itself is the list of its (key, space) items.
\<close>

datatype space =
    MultiDiscrete "int tensor"
  | Discrete int
  | MultiBinary nat
  | Box "nat list"

fun is_MultiDiscrete :: "space \<Rightarrow> bool" where
  "is_MultiDiscrete (MultiDiscrete nv) = True"
| "is_MultiDiscrete _ = False"

fun space_shape :: "space \<Rightarrow> nat list" where
  "space_shape (MultiDiscrete nv) = shape nv"
| "space_shape (Discrete n) = []"
| "space_shape (MultiBinary n) = [n]"
| "space_shape (Box s) = s"

fun space_nvec :: "space \<Rightarrow> error + int tensor" where
  "space_nvec (MultiDiscrete nv) = Inr nv"
| "space_nvec _ = Inl AttributeError"

definition nvec_min :: "space \<Rightarrow> error + int" where
  "nvec_min sp = (case space_nvec sp of Inl e \<Rightarrow> Inl e | Inr nv \<Rightarrow> np_min nv)"

definition nvec_max :: "space \<Rightarrow> error + int" where
  "nvec_max sp = (case space_nvec sp of Inl e \<Rightarrow> Inl e | Inr nv \<Rightarrow> np_max nv)"

text \<open>
  What gym guarantees of a MultiDiscrete space (its constructor asserts that every
  count is positive), and of an array (as many entries as its shape says).
\<close>

fun gym_space :: "space \<Rightarrow> bool" where
  "gym_space (MultiDiscrete nv) =
     (length (data nv) = prod_list (shape nv) \<and> list_all (\<lambda>n. 0 < n) (data nv))"
| "gym_space _ = True"

section \<open>Random numbers and layer parameters\<close>

text \<open>
  The state of the random number generator: the uniform variates in \<open>[0, 1)\<close> it is
  going to produce, and how many have been drawn.
\<close>

record generator =
  variates :: "nat \<Rightarrow> real"
  position :: nat

definition uniform :: "generator \<Rightarrow> real \<times> generator" where
  "uniform g = (variates g (position g), g\<lparr>position := Suc (position g)\<rparr>)"

definition uniform_list :: "nat \<Rightarrow> generator \<Rightarrow> real list \<times> generator" where
  "uniform_list n g =
     (map (\<lambda>i. variates g (position g + i)) [0..<n], g\<lparr>position := position g + n\<rparr>)"

text \<open>
  \<open>nn.Conv2d(in_channels, out_channels, (1, 1))\<close>: the weight has shape
  \<open>(out_channels, in_channels, 1, 1)\<close> and is kept in row-major order, the bias has
  \<open>out_channels\<close> entries. A new layer draws its parameters from the generator (the
  scaling torch applies to them is not modelled). A negative size is refused.
\<close>

record conv2d =
  conv_in :: nat
  conv_out :: nat
  conv_weight :: "real list"
  conv_bias :: "real list"

definition Conv2d_new :: "nat \<Rightarrow> int \<Rightarrow> generator \<Rightarrow> error + (conv2d \<times> generator)" where
  "Conv2d_new cin cout g =
     (if cout < 0 then Inl RuntimeError
      else
        (case uniform_list (nat cout * cin) g of (ws, g1) \<Rightarrow>
         (case uniform_list (nat cout) g1 of (bs, g2) \<Rightarrow>
            Inr (\<lparr>conv_in = cin, conv_out = nat cout, conv_weight = ws, conv_bias = bs\<rparr>, g2))))"

section \<open>DictActor: construction\<close>

record dict_actor =
  n_actions :: "(string \<times> int) list"
  action_plane_shapes :: "(string \<times> nat list) list"
  actors :: "(string \<times> conv2d) list"

text \<open>The check \<open>space.nvec.min() == space.nvec.max()\<close> of one space.\<close>

definition same_n_actions :: "space \<Rightarrow> error + bool" where
  "same_n_actions sp =
     (case nvec_min sp of
        Inl e \<Rightarrow> Inl e
      | Inr lo \<Rightarrow> (case nvec_max sp of Inl e \<Rightarrow> Inl e | Inr hi \<Rightarrow> Inr (lo = hi)))"

text \<open>\<open>space.shape[:-2]\<close>: all but the last two entries (none when there are fewer).\<close>

definition action_plane_shape :: "space \<Rightarrow> nat list" where
  "action_plane_shape sp = take (length (space_shape sp) - 2) (space_shape sp)"

text \<open>
  The ModuleDict of 1x1 convolutions, one per key of \<open>n_actions\<close>, with
  \<open>n_act * np.prod(action_plane_shapes[key])\<close> output channels.
\<close>

fun new_actors ::
  "nat \<Rightarrow> (string \<times> nat list) list \<Rightarrow> (string \<times> int) list \<Rightarrow> generator
   \<Rightarrow> error + ((string \<times> conv2d) list \<times> generator)" where
  "new_actors cin aps [] g = Inr ([], g)"
| "new_actors cin aps ((key, n_act) # rest) g =
     (case map_of aps key of
        None \<Rightarrow> Inl KeyError
      | Some ap \<Rightarrow>
         (case Conv2d_new cin (n_act * int (prod_list ap)) g of
            Inl e \<Rightarrow> Inl e
          | Inr (cv, g1) \<Rightarrow>
             (case new_actors cin aps rest g1 of
                Inl e \<Rightarrow> Inl e
              | Inr (cs, g2) \<Rightarrow> Inr ((key, cv) # cs, g2))))"

text \<open>
  \<open>DictActor.__init__(in_channels, action_space)\<close>: the three validations in the
  source's order, the two dictionaries, the assertion, the convolutions.
\<close>

definition DictActor_init ::
  "nat \<Rightarrow> (string \<times> space) list \<Rightarrow> generator \<Rightarrow> error + (dict_actor \<times> generator)" where
  "DictActor_init cin spaces g =
     (if \<not> list_all (\<lambda>(key, sp). is_MultiDiscrete sp) spaces then Inl ValueError
      else if \<not> list_all (\<lambda>(key, sp). length (space_shape sp) = 4) spaces then Inl ValueError
      else
        (case mapE (\<lambda>(key, sp). same_n_actions sp) spaces of
           Inl e \<Rightarrow> Inl e
         | Inr same \<Rightarrow>
            if \<not> list_all (\<lambda>ok. ok) same then Inl ValueError
            else
              (case mapE (\<lambda>(key, sp). map_sum (\<lambda>e. e) (Pair key) (nvec_min sp)) spaces of
                 Inl e \<Rightarrow> Inl e
               | Inr n_act \<Rightarrow>
                  (let aps = map (\<lambda>(key, sp). (key, action_plane_shape sp)) spaces in
                   if \<not> list_all (\<lambda>(key, ap). length ap = 2) aps then Inl AssertionError
                   else
                     (case new_actors cin aps n_act g of
                        Inl e \<Rightarrow> Inl e
                      | Inr (acts, g') \<Rightarrow>
                         Inr (\<lparr>n_actions = n_act, action_plane_shapes = aps, actors = acts\<rparr>,
                              g'))))))"

text \<open>
  The three conditions on an entry, in the words of the validation messages: not a
  MultiDiscrete space, not 4 dimensions, not the same number of actions throughout.
\<close>

definition differing_n_actions :: "space \<Rightarrow> bool" where
  "differing_n_actions sp =
     (case sp of
        MultiDiscrete nv \<Rightarrow> list_ex (\<lambda>a. list_ex (\<lambda>b. a \<noteq> b) (data nv)) (data nv)
      | _ \<Rightarrow> False)"

definition empty_nvec :: "space \<Rightarrow> bool" where
  "empty_nvec sp = (case sp of MultiDiscrete nv \<Rightarrow> data nv = [] | _ \<Rightarrow> False)"

definition invalid_entry :: "space \<Rightarrow> bool" where
  "invalid_entry sp =
     (\<not> is_MultiDiscrete sp \<or> length (space_shape sp) \<noteq> 4 \<or> differing_n_actions sp)"

text \<open>
  What \<open>__init__\<close> builds once the three validations have passed: the dictionaries
  read off the spaces and the convolutions. It is the continuation of
  \<open>DictActor_init\<close> after its checks, stated on its own for the proofs.
\<close>

definition validated_init ::
  "nat \<Rightarrow> (string \<times> space) list \<Rightarrow> generator \<Rightarrow> error + (dict_actor \<times> generator)" where
  "validated_init cin spaces g =
     (let n_act = map (\<lambda>(key, sp). (key, projr (nvec_min sp))) spaces;
          aps = map (\<lambda>(key, sp). (key, action_plane_shape sp)) spaces
      in (case new_actors cin aps n_act g of
            Inl e \<Rightarrow> Inl e
          | Inr (acts, g') \<Rightarrow>
             Inr (\<lparr>n_actions = n_act, action_plane_shapes = aps, actors = acts\<rparr>, g')))"

text \<open>A generator whose variates are all 0, for the concrete runs below.\<close>

definition zero_generator :: generator where
  "zero_generator = \<lparr>variates = (\<lambda>i. 0), position = 0\<rparr>"

section \<open>Tensor operations\<close>

text \<open>
  The multi-indices of a shape in row-major order, the offset of a multi-index in the
  row-major data, and the entry of a tensor at a multi-index.
\<close>

definition indices :: "nat list \<Rightarrow> nat list list" where
  "indices s = product_lists (map (\<lambda>d. [0..<d]) s)"

fun ravel :: "nat list \<Rightarrow> nat list \<Rightarrow> nat" where
  "ravel (d # ds) (i # js) = i * prod_list ds + ravel ds js"
| "ravel _ _ = 0"

definition entry :: "'a tensor \<Rightarrow> nat list \<Rightarrow> 'a" where
  "entry t idx = data t ! ravel (shape t) idx"

text \<open>
  \<open>Tensor.view(*dims)\<close>: the same data under another shape. One dimension may be
  \<open>-1\<close> and is then inferred from the number of entries; the inference fails when the
  other dimensions multiply to 0 or do not divide the number of entries. Without \<open>-1\<close>
  the dimensions must multiply to the number of entries.
\<close>

definition view :: "'a tensor \<Rightarrow> int list \<Rightarrow> error + 'a tensor" where
  "view t dims =
     (if list_ex (\<lambda>d. d < - 1) dims then Inl RuntimeError
      else if 1 < length (filter (\<lambda>d. d = - 1) dims) then Inl RuntimeError
      else if list_ex (\<lambda>d. d = - 1) dims then
        (let known = prod_list (filter (\<lambda>d. d \<noteq> - 1) dims) in
         if known = 0 \<or> int (numel t) mod known \<noteq> 0 then Inl RuntimeError
         else Inr (t\<lparr>shape :=
                 map (\<lambda>d. nat (if d = - 1 then int (numel t) div known else d)) dims\<rparr>))
      else if prod_list dims \<noteq> int (numel t) then Inl RuntimeError
      else Inr (t\<lparr>shape := map nat dims\<rparr>))"

text \<open>
  \<open>Tensor.permute(*dims)\<close>: dimension \<open>k\<close> of the result is dimension \<open>dims[k]\<close> of the
  argument. The data is laid out again in row-major order of the new shape, which is
  what the \<open>.contiguous()\<close> that follows it in the source produces.
\<close>

fun index_of :: "'a list \<Rightarrow> 'a \<Rightarrow> nat" where
  "index_of [] y = 0"
| "index_of (x # xs) y = (if x = y then 0 else Suc (index_of xs y))"

definition permute :: "'a tensor \<Rightarrow> nat list \<Rightarrow> error + 'a tensor" where
  "permute t dims =
     (if length dims \<noteq> length (shape t) \<or>
         \<not> list_all (\<lambda>j. j \<in> set dims) [0..<length (shape t)]
      then Inl RuntimeError
      else
        Inr \<lparr>shape = map (\<lambda>d. shape t ! d) dims,
             data = map (\<lambda>idx. entry t (map (\<lambda>j. idx ! index_of dims j) [0..<length (shape t)]))
                        (indices (map (\<lambda>d. shape t ! d) dims))\<rparr>)"

definition contiguous :: "'a tensor \<Rightarrow> 'a tensor" where
  "contiguous t = t"

text \<open>
  The rows of a tensor along its last dimension: \<open>last (shape t)\<close> consecutive entries
  each, one row per index of the leading dimensions.
\<close>

definition rows :: "'a tensor \<Rightarrow> 'a list list" where
  "rows t =
     map (\<lambda>r. take (last (shape t)) (drop (r * last (shape t)) (data t)))
         [0..<prod_list (butlast (shape t))]"

section \<open>Layers\<close>

text \<open>
  A 1x1 convolution on a batch \<open>(b, c, h, w)\<close>: at every location the output channel
  \<open>k\<close> is \<open>bias[k] + sum over ci of weight[k, ci] * x[b, ci, y, z]\<close>. The channel count
  must be the layer's. An input that is not a batch of 4 dimensions is refused, and so
  is one with no channel, no row or no column: torch raises RuntimeError on an input with
  an empty non-batch dimension.
\<close>

definition Conv2d_forward :: "conv2d \<Rightarrow> real tensor \<Rightarrow> error + real tensor" where
  "Conv2d_forward cv x =
     (case shape x of
        [b, c, h, w] \<Rightarrow>
          if c \<noteq> conv_in cv \<or> c = 0 \<or> h = 0 \<or> w = 0 then Inl RuntimeError
          else
            Inr \<lparr>shape = [b, conv_out cv, h, w],
                 data = map (\<lambda>idx. conv_bias cv ! (idx ! 1) +
                               (\<Sum>ci\<leftarrow>[0..<c]. conv_weight cv ! ((idx ! 1) * c + ci) *
                                                entry x [idx ! 0, ci, idx ! 2, idx ! 3]))
                            (indices [b, conv_out cv, h, w])\<rparr>
      | _ \<Rightarrow> Inl RuntimeError)"

text \<open>
  \<open>nn.AdaptiveAvgPool2d(1)\<close> on a batch \<open>(b, c, h, w)\<close>: the mean over the \<open>h * w\<close>
  locations of every channel, of shape \<open>(b, c, 1, 1)\<close>. The non-batch dimensions must
  not be empty. Only a batch reaches it in this network.
\<close>

definition AdaptiveAvgPool2d_forward :: "real tensor \<Rightarrow> error + real tensor" where
  "AdaptiveAvgPool2d_forward x =
     (case shape x of
        [b, c, h, w] \<Rightarrow>
          if c = 0 \<or> h = 0 \<or> w = 0 then Inl RuntimeError
          else
            Inr \<lparr>shape = [b, c, 1, 1],
                 data = map (\<lambda>idx. (\<Sum>y\<leftarrow>[0..<h]. \<Sum>z\<leftarrow>[0..<w]. entry x [idx ! 0, idx ! 1, y, z])
                                    / real (h * w))
                            (indices [b, c, 1, 1])\<rparr>
      | _ \<Rightarrow> Inl RuntimeError)"

text \<open>\<open>nn.Flatten()\<close>: all dimensions from the second on become one.\<close>

definition Flatten_forward :: "'a tensor \<Rightarrow> error + 'a tensor" where
  "Flatten_forward x =
     (case shape x of
        d0 # d1 # ds \<Rightarrow> Inr (x\<lparr>shape := [d0, prod_list (d1 # ds)]\<rparr>)
      | _ \<Rightarrow> Inl IndexError)"

text \<open>
  \<open>nn.Linear(in_features, out_features)\<close>, applied to every row along the last
  dimension, which must have \<open>in_features\<close> entries. The weight has shape
  \<open>(out_features, in_features)\<close>, in row-major order.
\<close>

record linear =
  lin_in :: nat
  lin_out :: nat
  lin_weight :: "real list"
  lin_bias :: "real list"

definition Linear_new :: "nat \<Rightarrow> nat \<Rightarrow> generator \<Rightarrow> linear \<times> generator" where
  "Linear_new fin fout g =
     (case uniform_list (fout * fin) g of (ws, g1) \<Rightarrow>
      (case uniform_list fout g1 of (bs, g2) \<Rightarrow>
         (\<lparr>lin_in = fin, lin_out = fout, lin_weight = ws, lin_bias = bs\<rparr>, g2)))"

definition Linear_forward :: "linear \<Rightarrow> real tensor \<Rightarrow> error + real tensor" where
  "Linear_forward l x =
     (if shape x = [] \<or> last (shape x) \<noteq> lin_in l then Inl RuntimeError
      else
        Inr \<lparr>shape = butlast (shape x) @ [lin_out l],
             data = concat (map (\<lambda>row. map (\<lambda>k. lin_bias l ! k +
                                      (\<Sum>i\<leftarrow>[0..<lin_in l]. lin_weight l ! (k * lin_in l + i) * row ! i))
                                    [0..<lin_out l])
                                (rows x))\<rparr>)"

text \<open>
  \<open>F.softmax(x, dim)\<close>: along dimension \<open>dim\<close> (negative values count from the end)
  every entry becomes its exponential over the sum of the exponentials of its line.
  A dimension out of range raises IndexError. (A tensor with no dimensions reaches no
  softmax of this network; the model refuses it.)
\<close>

definition normalize_dim :: "int \<Rightarrow> nat \<Rightarrow> error + nat" where
  "normalize_dim d r =
     (if - int r \<le> d \<and> d < int r then Inr (nat (if d < 0 then d + int r else d))
      else Inl IndexError)"

definition softmax :: "real tensor \<Rightarrow> int \<Rightarrow> error + real tensor" where
  "softmax x axis =
     (case normalize_dim axis (length (shape x)) of
        Inl e \<Rightarrow> Inl e
      | Inr d \<Rightarrow>
          Inr (x\<lparr>data :=
                 map (\<lambda>idx. exp (entry x idx) /
                             (\<Sum>j\<leftarrow>[0..<shape x ! d]. exp (entry x (idx[d := j]))))
                     (indices (shape x))\<rparr>))"

text \<open>\<open>ValueActivation(dim).forward\<close>: \<open>2 * F.softmax(x, self.dim) - 1.\<close>\<close>

definition ValueActivation_forward :: "int \<Rightarrow> real tensor \<Rightarrow> error + real tensor" where
  "ValueActivation_forward axis x =
     (case softmax x axis of
        Inl e \<Rightarrow> Inl e
      | Inr p \<Rightarrow> Inr (p\<lparr>data := map (\<lambda>v. 2 * v - 1) (data p)\<rparr>))"

text \<open>
  The modules a \<open>nn.Sequential\<close> of this network holds. \<open>Module\<close> is a module given
  from outside by its forward function (the activation the constructor is called with).
\<close>

datatype layer =
    Conv2d conv2d
  | Module "real tensor \<Rightarrow> error + real tensor"
  | AdaptiveAvgPool2d
  | Flatten
  | Linear linear
  | ValueActivation int

fun layer_forward :: "layer \<Rightarrow> real tensor \<Rightarrow> error + real tensor" where
  "layer_forward (Conv2d cv) x = Conv2d_forward cv x"
| "layer_forward (Module f) x = f x"
| "layer_forward AdaptiveAvgPool2d x = AdaptiveAvgPool2d_forward x"
| "layer_forward Flatten x = Flatten_forward x"
| "layer_forward (Linear l) x = Linear_forward l x"
| "layer_forward (ValueActivation axis) x = ValueActivation_forward axis x"

fun Sequential_forward :: "layer list \<Rightarrow> real tensor \<Rightarrow> error + real tensor" where
  "Sequential_forward [] x = Inr x"
| "Sequential_forward (l # ls) x =
     (case layer_forward l x of Inl e \<Rightarrow> Inl e | Inr y \<Rightarrow> Sequential_forward ls y)"

text \<open>\<open>nn.ReLU\<close>, the default of \<open>actor_critic_activation\<close>.\<close>

definition ReLU :: layer where
  "ReLU = Module (\<lambda>x. Inr (x\<lparr>data := map (max 0) (data x)\<rparr>))"

section \<open>Sampling and argmax\<close>

text \<open>
  One draw from the categorical distribution with weights \<open>ps\<close>, from a uniform variate
  \<open>u\<close>: the first index whose cumulative weight exceeds \<open>u * sum ps\<close>, the last index
  when none does.
\<close>

fun find_bucket :: "real list \<Rightarrow> real \<Rightarrow> nat \<Rightarrow> nat" where
  "find_bucket [] t i = i"
| "find_bucket [p] t i = i"
| "find_bucket (p # ps) t i = (if t < p then i else find_bucket ps (t - p) (Suc i))"

definition sample_row :: "real list \<Rightarrow> real \<Rightarrow> nat" where
  "sample_row ps u = find_bucket ps (u * sum_list ps) 0"

fun draw_rows :: "real list list \<Rightarrow> generator \<Rightarrow> int list \<times> generator" where
  "draw_rows [] g = ([], g)"
| "draw_rows (r # rs) g =
     (case uniform g of (u, g1) \<Rightarrow>
      (case draw_rows rs g1 of (js, g2) \<Rightarrow> (int (sample_row r u) # js, g2)))"

text \<open>
  \<open>torch.multinomial(probs, num_samples=1)\<close> on a matrix of weights: one index per
  row, in a column. torch refuses a row with a negative weight or with no positive sum,
  and a matrix with no columns.
  Only a matrix is modelled: \<open>logits_to_actions\<close> is called on \<open>logits.view(-1, n_actions)\<close>.
\<close>

definition multinomial :: "real tensor \<Rightarrow> generator \<Rightarrow> error + (int tensor \<times> generator)" where
  "multinomial p g =
     (case shape p of
        [m, n] \<Rightarrow>
          if n = 0 then Inl RuntimeError
          else if list_ex (\<lambda>r. list_ex (\<lambda>v. v < 0) r \<or> sum_list r \<le> 0) (rows p)
          then Inl RuntimeError
          else (case draw_rows (rows p) g of (js, g') \<Rightarrow> Inr (\<lparr>shape = [m, 1], data = js\<rparr>, g'))
      | _ \<Rightarrow> Inl RuntimeError)"

text \<open>
  \<open>Tensor.argmax(dim=-1)\<close>: per row along the last dimension the index of the first
  maximal entry; the last dimension is dropped. It must not be empty.
\<close>

definition argmax_row :: "real list \<Rightarrow> nat" where
  "argmax_row r = fold (\<lambda>j best. if r ! best < r ! j then j else best) [1..<length r] 0"

definition argmax :: "real tensor \<Rightarrow> error + int tensor" where
  "argmax x =
     (if shape x = [] \<or> last (shape x) = 0 then Inl IndexError
      else Inr \<lparr>shape = butlast (shape x), data = map (\<lambda>r. int (argmax_row r)) (rows x)\<rparr>)"

section \<open>DictActor: the forward pass\<close>

text \<open>\<open>DictActor.logits_to_actions(logits, sample)\<close>.\<close>

definition logits_to_actions ::
  "real tensor \<Rightarrow> bool \<Rightarrow> generator \<Rightarrow> error + (int tensor \<times> generator)" where
  "logits_to_actions logits sample g =
     (if sample then
        (case softmax logits (- 1) of Inl e \<Rightarrow> Inl e | Inr p \<Rightarrow> multinomial p g)
      else
        (case argmax logits of Inl e \<Rightarrow> Inl e | Inr a \<Rightarrow> Inr (a, g)))"

text \<open>
  The body of the loop of \<open>DictActor.forward\<close> for one key and its convolution: the
  logits of the key and its actions.
\<close>

definition actor_forward ::
  "dict_actor \<Rightarrow> real tensor \<Rightarrow> bool \<Rightarrow> nat \<Rightarrow> nat \<Rightarrow> nat \<Rightarrow> string \<Rightarrow> conv2d \<Rightarrow> generator
   \<Rightarrow> error + ((real tensor \<times> int tensor) \<times> generator)" where
  "actor_forward self x sample b h w key actor g =
     (case map_of (n_actions self) key of
        None \<Rightarrow> Inl KeyError
      | Some n \<Rightarrow>
     (case map_of (action_plane_shapes self) key of
        None \<Rightarrow> Inl KeyError
      | Some plane_shape \<Rightarrow>
     (case Conv2d_forward actor x of
        Inl e \<Rightarrow> Inl e
      | Inr y \<Rightarrow>
     (case view y ([int b, n] @ map int plane_shape @ [int h, int w]) of
        Inl e \<Rightarrow> Inl e
      | Inr l6 \<Rightarrow>
     (case permute l6 [0, 2, 3, 4, 5, 1] of
        Inl e \<Rightarrow> Inl e
      | Inr lp \<Rightarrow>
     (case view (contiguous lp) [- 1, n] of
        Inl e \<Rightarrow> Inl e
      | Inr l2 \<Rightarrow>
     (case logits_to_actions l2 sample g of
        Inl e \<Rightarrow> Inl e
      | Inr (acts, g') \<Rightarrow>
     (case view acts ([int b] @ map int plane_shape @ [int h, int w]) of
        Inl e \<Rightarrow> Inl e
      | Inr a \<Rightarrow> Inr ((contiguous lp, a), g')))))))))"

fun actors_loop ::
  "dict_actor \<Rightarrow> real tensor \<Rightarrow> bool \<Rightarrow> nat \<Rightarrow> nat \<Rightarrow> nat \<Rightarrow> (string \<times> conv2d) list
   \<Rightarrow> (string \<times> real tensor) list \<times> (string \<times> int tensor) list \<Rightarrow> generator
   \<Rightarrow> error + (((string \<times> real tensor) list \<times> (string \<times> int tensor) list) \<times> generator)" where
  "actors_loop self x sample b h w [] out g = Inr (out, g)"
| "actors_loop self x sample b h w ((key, actor) # rest) (policy_logits_out, actions_out) g =
     (case actor_forward self x sample b h w key actor g of
        Inl e \<Rightarrow> Inl e
      | Inr ((logits, acts), g') \<Rightarrow>
          actors_loop self x sample b h w rest
            (AList.update key logits policy_logits_out, AList.update key acts actions_out) g')"

text \<open>
  \<open>DictActor.forward(x, sample)\<close>: \<open>b, _, h, w = x.shape\<close> raises ValueError unless
  \<open>x\<close> has 4 dimensions; then one pass of the loop per actor, starting from two empty
  dictionaries.
\<close>

definition DictActor_forward ::
  "dict_actor \<Rightarrow> real tensor \<Rightarrow> bool \<Rightarrow> generator
   \<Rightarrow> error + (((string \<times> real tensor) list \<times> (string \<times> int tensor) list) \<times> generator)" where
  "DictActor_forward self x sample g =
     (case shape x of
        [b, c, h, w] \<Rightarrow> actors_loop self x sample b h w (actors self) ([], []) g
      | _ \<Rightarrow> Inl ValueError)"

section \<open>BasicActorCriticNetwork\<close>

text \<open>
  The network object. \<open>DictInputLayer\<close> (module \<open>in_blocks\<close>) and the base model are
  given from outside, by their forward functions: the first turns the input dictionary
  into the pair of observation and input mask, the second turns that pair into a pair
  whose first component is the trunk's output.
\<close>

record ('x, 'o, 'm, 'aux) network =
  dict_input_layer :: "'x \<Rightarrow> error + ('o \<times> 'm)"
  base_model :: "'o \<times> 'm \<Rightarrow> error + (real tensor \<times> 'aux)"
  base_out_channels :: nat
  actor_base :: "layer list"
  actor :: dict_actor
  baseline :: "layer list"

text \<open>
  The loop \<open>for i in range(n_action_value_layers - 1)\<close> of the constructor, by the
  number of passes left: each pass appends a new convolution and an activation to the
  actor's layers and to the baseline's.
\<close>

fun head_layers ::
  "nat \<Rightarrow> nat \<Rightarrow> layer \<Rightarrow> layer list \<times> layer list \<Rightarrow> generator
   \<Rightarrow> error + ((layer list \<times> layer list) \<times> generator)" where
  "head_layers 0 c act (actor_layers, baseline_layers) g = Inr ((actor_layers, baseline_layers), g)"
| "head_layers (Suc k) c act (actor_layers, baseline_layers) g =
     (case Conv2d_new c (int c) g of
        Inl e \<Rightarrow> Inl e
      | Inr (ca, g1) \<Rightarrow>
         (case Conv2d_new c (int c) g1 of
            Inl e \<Rightarrow> Inl e
          | Inr (cb, g2) \<Rightarrow>
              head_layers k c act
                (actor_layers @ [Conv2d ca, act], baseline_layers @ [Conv2d cb, act]) g2))"

text \<open>
  \<open>BasicActorCriticNetwork.__init__\<close>. The defaults of the source are
  \<open>actor_critic_activation = ReLU\<close>, \<open>n_action_value_layers = 2\<close> and
  \<open>final_value_activation = ValueActivation (- 1)\<close>.
\<close>

definition BasicActorCriticNetwork_init ::
  "('x \<Rightarrow> error + ('o \<times> 'm)) \<Rightarrow> ('o \<times> 'm \<Rightarrow> error + (real tensor \<times> 'aux)) \<Rightarrow> nat
   \<Rightarrow> (string \<times> space) list \<Rightarrow> layer \<Rightarrow> int \<Rightarrow> layer \<Rightarrow> generator
   \<Rightarrow> error + (('x, 'o, 'm, 'aux) network \<times> generator)" where
  "BasicActorCriticNetwork_init dict_input base c action_space actor_critic_activation
       n_action_value_layers final_value_activation g =
     (case head_layers (nat (n_action_value_layers - 1)) c actor_critic_activation ([], []) g of
        Inl e \<Rightarrow> Inl e
      | Inr ((actor_layers, baseline_layers), g1) \<Rightarrow>
         (case DictActor_init c action_space g1 of
            Inl e \<Rightarrow> Inl e
          | Inr (da, g2) \<Rightarrow>
             (case Linear_new c 2 g2 of
                (lin, g3) \<Rightarrow>
                  Inr (\<lparr>dict_input_layer = dict_input, base_model = base, base_out_channels = c,
                        actor_base = actor_layers, actor = da,
                        baseline = baseline_layers @
                          [AdaptiveAvgPool2d, Flatten, Linear lin, final_value_activation]\<rparr>,
                       g3))))"

text \<open>
  What a call can read and change: the network object and the random number
  generator. The dictionary a call returns has the keys \<open>actions\<close>, \<open>policy_logits\<close> and
  \<open>baseline\<close>.
\<close>

record ('x, 'o, 'm, 'aux) session =
  net :: "('x, 'o, 'm, 'aux) network"
  rng :: generator

record forward_output =
  out_actions :: "(string \<times> int tensor) list"
  out_policy_logits :: "(string \<times> real tensor) list"
  out_baseline :: "real tensor"

definition forward ::
  "('x, 'o, 'm, 'aux) session \<Rightarrow> 'x \<Rightarrow> bool \<Rightarrow> error + (forward_output \<times> ('x, 'o, 'm, 'aux) session)" where
  "forward s x sample =
     (case dict_input_layer (net s) x of
        Inl e \<Rightarrow> Inl e
      | Inr (obs, input_mask) \<Rightarrow>
     (case base_model (net s) (obs, input_mask) of
        Inl e \<Rightarrow> Inl e
      | Inr (base_out, aux) \<Rightarrow>
     (case Sequential_forward (actor_base (net s)) base_out of
        Inl e \<Rightarrow> Inl e
      | Inr hidden \<Rightarrow>
     (case DictActor_forward (actor (net s)) hidden sample (rng s) of
        Inl e \<Rightarrow> Inl e
      | Inr ((policy_logits, actions), g') \<Rightarrow>
     (case Sequential_forward (baseline (net s)) base_out of
        Inl e \<Rightarrow> Inl e
      | Inr value \<Rightarrow>
          Inr (\<lparr>out_actions = actions, out_policy_logits = policy_logits, out_baseline = value\<rparr>,
               s\<lparr>rng := g'\<rparr>))))))"

definition sample_actions ::
  "('x, 'o, 'm, 'aux) session \<Rightarrow> 'x \<Rightarrow> error + (forward_output \<times> ('x, 'o, 'm, 'aux) session)" where
  "sample_actions s x = forward s x True"

definition select_best_actions ::
  "('x, 'o, 'm, 'aux) session \<Rightarrow> 'x \<Rightarrow> error + (forward_output \<times> ('x, 'o, 'm, 'aux) session)" where
  "select_best_actions s x = forward s x False"

section \<open>Well-formed objects\<close>

text \<open>
  What \<open>DictActor.__init__\<close> establishes of the object it builds, for \<open>in_channels = cin\<close>:
  every key of \<open>actors\<close> has its number of actions, which is positive, and its action
  plane shape, of length 2 and with no empty dimension, and its convolution maps
  \<open>cin\<close> channels to
  \<open>n_actions[key] * prod(action_plane_shapes[key])\<close> channels.
\<close>

definition actor_built :: "nat \<Rightarrow> dict_actor \<Rightarrow> bool" where
  "actor_built cin self =
     list_all (\<lambda>(key, cv).
        (case map_of (n_actions self) key of
           None \<Rightarrow> False
         | Some n \<Rightarrow>
            (case map_of (action_plane_shapes self) key of
               None \<Rightarrow> False
             | Some ap \<Rightarrow>
                 0 < n \<and> length ap = 2 \<and> 0 < prod_list ap \<and> conv_in cv = cin \<and>
                 conv_out cv = nat (n * int (prod_list ap)))))
       (actors self)"

text \<open>
  What gym guarantees of the action-space Dict: the keys of a dictionary are distinct,
  and every space is as gym builds it.
\<close>

definition gym_dict :: "(string \<times> space) list \<Rightarrow> bool" where
  "gym_dict spaces = (distinct (map fst spaces) \<and> list_all (\<lambda>(key, sp). gym_space sp) spaces)"

text \<open>
  A small DictActor and a small input for the concrete runs below: one key with 2
  actions on a 1 by 1 action plane, one input channel, a 1 by 2 board.
\<close>

definition example_actor :: dict_actor where
  "example_actor =
     \<lparr>n_actions = [(''worker'', 2)],
      action_plane_shapes = [(''worker'', [1, 1])],
      actors = [(''worker'',
                 \<lparr>conv_in = 1, conv_out = 2, conv_weight = [1, - 1], conv_bias = [0, 0]\<rparr>)]\<rparr>"

definition example_input :: "real tensor" where
  "example_input = \<lparr>shape = [1, 1, 1, 2], data = [1, - 1]\<rparr>"

text \<open>
  An activation as the constructor expects it: a module that never raises and returns
  a tensor of the shape of its argument, as \<open>nn.ReLU\<close> and every elementwise
  activation does.
\<close>

definition shape_preserving :: "layer \<Rightarrow> bool" where
  "shape_preserving act = (\<forall>x. \<exists>y. layer_forward act x = Inr y \<and> shape y = shape x)"

text \<open>
  The layers the loop of the constructor appends for a list of convolutions: each
  convolution followed by the activation.
\<close>

definition conv_stack :: "layer \<Rightarrow> conv2d list \<Rightarrow> layer list" where
  "conv_stack act cvs = concat (map (\<lambda>cv. [Conv2d cv, act]) cvs)"

text \<open>
  A small network for the concrete runs below. Its input layer passes the observation
  on with an empty mask, its base model is the identity, it has one channel, one
  action key with 2 actions on a 1 by 1 action plane over a 1 by 2 board, and the
  defaults of the constructor: ReLU, 2 layers per head, \<open>ValueActivation (- 1)\<close>.
\<close>

definition example_input_layer :: "real tensor \<Rightarrow> error + (real tensor \<times> unit)" where
  "example_input_layer x = Inr (x, ())"

definition example_base_model :: "real tensor \<times> unit \<Rightarrow> error + (real tensor \<times> unit)" where
  "example_base_model = (\<lambda>(obs, input_mask). Inr (obs, ()))"

definition example_spaces :: "(string \<times> space) list" where
  "example_spaces = [(''worker'', MultiDiscrete \<lparr>shape = [1, 1, 1, 2], data = [2, 2]\<rparr>)]"

definition example_network ::
  "layer \<Rightarrow> error + ((real tensor, real tensor, unit, unit) network \<times> generator)" where
  "example_network final_value_activation =
     BasicActorCriticNetwork_init example_input_layer example_base_model 1 example_spaces
       ReLU 2 final_value_activation zero_generator"

text \<open>A generator whose variates are all \<open>u\<close>.\<close>

definition constant_generator :: "real \<Rightarrow> generator" where
  "constant_generator u = \<lparr>variates = (\<lambda>i. u), position = 0\<rparr>"

text \<open>The network that \<open>example_network\<close> returns, written out: all parameters are 0.\<close>

definition example_net :: "layer \<Rightarrow> (real tensor, real tensor, unit, unit) network" where
  "example_net final_value_activation =
     \<lparr>dict_input_layer = example_input_layer, base_model = example_base_model,
      base_out_channels = 1,
      actor_base = [Conv2d \<lparr>conv_in = 1, conv_out = 1, conv_weight = [0], conv_bias = [0]\<rparr>, ReLU],
      actor = \<lparr>n_actions = [(''worker'', 2)], action_plane_shapes = [(''worker'', [1, 1])],
               actors = [(''worker'', \<lparr>conv_in = 1, conv_out = 2, conv_weight = [0, 0],
                                        conv_bias = [0, 0]\<rparr>)]\<rparr>,
      baseline = [Conv2d \<lparr>conv_in = 1, conv_out = 1, conv_weight = [0], conv_bias = [0]\<rparr>, ReLU,
                  AdaptiveAvgPool2d, Flatten,
                  Linear \<lparr>lin_in = 1, lin_out = 2, lin_weight = [0, 0], lin_bias = [0, 0]\<rparr>,
                  final_value_activation]\<rparr>"

section \<open>The network as objects that a call may change\<close>
























section \<open>Construction: validation and the stored shapes\<close>

lemma mapE_Inl: "mapE f xs = Inl e \<Longrightarrow> \<exists>x\<in>set xs. f x = Inl e"
  by (induction xs) (auto split: sum.splits)

lemma mapE_Inr: "mapE f xs = Inr ys \<Longrightarrow> list_all2 (\<lambda>x y. f x = Inr y) xs ys"
  by (induction xs arbitrary: ys) (auto split: sum.splits)

lemma mapE_Inr_mem: "mapE f xs = Inr ys \<Longrightarrow> x \<in> set xs \<Longrightarrow> \<exists>y\<in>set ys. f x = Inr y"
  by (induction xs arbitrary: ys) (auto split: sum.splits)

lemma mapE_map: "(\<And>x. x \<in> set xs \<Longrightarrow> f x = Inr (h x)) \<Longrightarrow> mapE f xs = Inr (map h xs)"
  by (induction xs) auto

lemma fold_min_max_eq:
  "(fold min xs (x::int) = fold max xs x) \<longleftrightarrow> (\<forall>a\<in>set (x # xs). \<forall>b\<in>set (x # xs). a = b)"
proof -
  define A where "A = set (x # xs)"
  have fin: "finite A" and ne: "A \<noteq> {}" by (simp_all add: A_def)
  have mn: "fold min xs x = Min A" unfolding A_def by (simp only: Min.set_eq_fold)
  have mx: "fold max xs x = Max A" unfolding A_def by (simp only: Max.set_eq_fold)
  have "(Min A = Max A) \<longleftrightarrow> (\<forall>a\<in>A. \<forall>b\<in>A. a = b)"
  proof
    assume eq: "Min A = Max A"
    have "a = Min A" if "a \<in> A" for a
    proof -
      have "Min A \<le> a" using fin that by (rule Min_le)
      moreover have "a \<le> Max A" using fin that by (rule Max_ge)
      ultimately show ?thesis using eq by linarith
    qed
    then show "\<forall>a\<in>A. \<forall>b\<in>A. a = b" by metis
  next
    assume all: "\<forall>a\<in>A. \<forall>b\<in>A. a = b"
    have "Min A \<in> A" using fin ne by (rule Min_in)
    moreover have "Max A \<in> A" using fin ne by (rule Max_in)
    ultimately show "Min A = Max A" using all by blast
  qed
  then show ?thesis unfolding mn mx A_def .
qed

lemma same_n_actions_cases:
  "is_MultiDiscrete sp \<Longrightarrow>
   same_n_actions sp = (if empty_nvec sp then Inl ValueError else Inr (\<not> differing_n_actions sp))"
proof (cases sp)
  case (MultiDiscrete nv)
  show ?thesis
  proof (cases "data nv")
    case Nil
    with MultiDiscrete show ?thesis
      by (simp add: same_n_actions_def nvec_min_def nvec_max_def np_min_def np_max_def empty_nvec_def)
  next
    case (Cons x xs)
    have "differing_n_actions sp \<longleftrightarrow> \<not> (\<forall>a\<in>set (x # xs). \<forall>b\<in>set (x # xs). a = b)"
      using MultiDiscrete Cons by (simp add: differing_n_actions_def list_ex_iff del: set_simps) 
    with MultiDiscrete Cons fold_min_max_eq [of xs x] show ?thesis
      by (simp add: same_n_actions_def nvec_min_def nvec_max_def np_min_def np_max_def empty_nvec_def del: set_simps)
  qed
qed simp_all


lemma nvec_min_pos:
  assumes "is_MultiDiscrete sp" "gym_space sp" "\<not> empty_nvec sp"
  shows "\<exists>n. nvec_min sp = Inr n \<and> 0 < n"
proof (cases sp)
  case (MultiDiscrete nv)
  with assms obtain x xs where d: "data nv = x # xs"
    by (cases "data nv") (auto simp: empty_nvec_def)
  have "fold min xs x = Min (set (x # xs))" by (simp only: Min.set_eq_fold)
  moreover have "Min (set (x # xs)) \<in> set (x # xs)" by (rule Min_in) simp_all
  moreover have "\<forall>n\<in>set (x # xs). 0 < n"
    using assms(2) MultiDiscrete d by (simp add: list_all_iff)
  ultimately have "0 < fold min xs x" by metis
  with MultiDiscrete d show ?thesis by (simp add: nvec_min_def np_min_def)
qed (use assms in simp_all)

lemma nvec_min_Inr:
  assumes "is_MultiDiscrete sp" "\<not> empty_nvec sp"
  shows "nvec_min sp = Inr (projr (nvec_min sp))"
  using assms by (cases sp) (auto simp: nvec_min_def np_min_def empty_nvec_def split: list.splits)

lemma new_actors_error:
  "new_actors cin aps ns g = Inl e \<Longrightarrow> e = KeyError \<or> e = RuntimeError"
  by (induction cin aps ns g rule: new_actors.induct)
     (auto simp: Conv2d_new_def split: option.splits sum.splits if_splits prod.splits)

lemma new_actors_returns:
  "list_all (\<lambda>(key, n). map_of aps key \<noteq> None \<and> 0 \<le> n) ns
   \<Longrightarrow> \<exists>cs g'. new_actors cin aps ns g = Inr (cs, g')"
proof (induction ns arbitrary: g)
  case Nil
  show ?case by simp
next
  case (Cons kn ns)
  obtain key n where kn: "kn = (key, n)" by (cases kn)
  from Cons.prems kn obtain ap where ap: "map_of aps key = Some ap" and n: "0 \<le> n"
    by auto
  have "\<not> n * int (prod_list ap) < 0" using n by (simp add: not_less)
  then obtain cv g1 where cv: "Conv2d_new cin (n * int (prod_list ap)) g = Inr (cv, g1)"
    by (simp add: Conv2d_new_def uniform_list_def)
  from Cons.prems have "list_all (\<lambda>(key, n). map_of aps key \<noteq> None \<and> 0 \<le> n) ns" by simp
  from Cons.IH [OF this, of g1] obtain cs g2 where "new_actors cin aps ns g1 = Inr (cs, g2)"
    by auto
  with kn ap cv show ?case by simp
qed

lemma DictActor_init_valid:
  assumes ok: "\<And>key sp. (key, sp) \<in> set spaces \<Longrightarrow>
             is_MultiDiscrete sp \<and> length (space_shape sp) = 4 \<and> \<not> empty_nvec sp \<and>
             \<not> differing_n_actions sp"
  shows "DictActor_init cin spaces g = validated_init cin spaces g"
proof -
  have c1: "list_all (\<lambda>(key, sp). is_MultiDiscrete sp) spaces"
    using ok by (auto simp: list_all_iff)
  have c2: "list_all (\<lambda>(key, sp). length (space_shape sp) = 4) spaces"
    using ok by (auto simp: list_all_iff)
  have c3: "mapE (\<lambda>(key, sp). same_n_actions sp) spaces = Inr (map (\<lambda>_. True) spaces)"
    by (rule mapE_map) (use ok in \<open>auto simp: same_n_actions_cases\<close>)
  have c4: "mapE (\<lambda>(key, sp). map_sum (\<lambda>e. e) (Pair key) (nvec_min sp)) spaces
            = Inr (map (\<lambda>(key, sp). (key, projr (nvec_min sp))) spaces)"
  proof (rule mapE_map)
    fix x assume x: "x \<in> set spaces"
    obtain key sp where [simp]: "x = (key, sp)" by (cases x)
    from ok [of key sp] x have "nvec_min sp = Inr (projr (nvec_min sp))"
      by (auto intro: nvec_min_Inr)
    then have "map_sum (\<lambda>e. e) (Pair key) (nvec_min sp) = Inr (key, projr (nvec_min sp))"
      by (metis map_sum.simps(2))
    then show "(case x of (key, sp) \<Rightarrow> map_sum (\<lambda>e. e) (Pair key) (nvec_min sp)) =
               Inr (case x of (key, sp) \<Rightarrow> (key, projr (nvec_min sp)))" by simp
  qed
  have c5: "list_all (\<lambda>(key, ap). length ap = 2) (map (\<lambda>(key, sp). (key, action_plane_shape sp)) spaces)"
    using ok by (auto simp: list_all_iff action_plane_shape_def)
  show ?thesis
    unfolding DictActor_init_def validated_init_def
    using c1 c2 c5 by (simp add: c3 c4 list_all_iff Let_def)
qed

lemma DictActor_init_invalid:
  assumes "(key, sp) \<in> set spaces"
    and "\<not> is_MultiDiscrete sp \<or> length (space_shape sp) \<noteq> 4 \<or> empty_nvec sp \<or>
         differing_n_actions sp"
  shows "DictActor_init cin spaces g = Inl ValueError"
proof (cases "list_all (\<lambda>(key, sp). is_MultiDiscrete sp) spaces \<and>
              list_all (\<lambda>(key, sp). length (space_shape sp) = 4) spaces")
  case False
  then show ?thesis by (auto simp: DictActor_init_def)
next
  case True
  then have md: "\<And>k s. (k, s) \<in> set spaces \<Longrightarrow> is_MultiDiscrete s"
    by (auto simp: list_all_iff)
  from True assms md have bad: "same_n_actions sp = Inl ValueError \<or> same_n_actions sp = Inr False"
    by (auto simp: list_all_iff same_n_actions_cases)
  show ?thesis
  proof (cases "mapE (\<lambda>(key, sp). same_n_actions sp) spaces")
    case (Inl e)
    from mapE_Inl [OF Inl] obtain k s where "(k, s) \<in> set spaces" "same_n_actions s = Inl e"
      by auto
    with md [of k s] have "e = ValueError"
      by (auto simp: same_n_actions_cases split: if_splits)
    with True Inl show ?thesis by (simp add: DictActor_init_def)
  next
    case (Inr same)
    from mapE_Inr_mem [OF Inr assms(1)] obtain ok where "ok \<in> set same" "same_n_actions sp = Inr ok"
      by auto
    with bad have "False \<in> set same" by auto
    then have "\<not> list_all (\<lambda>ok. ok) same" by (auto simp: list_all_iff)
    with True Inr show ?thesis by (simp add: DictActor_init_def)
  qed
qed


lemma same_n_actions_error:
  "same_n_actions sp = Inl e \<Longrightarrow> e = ValueError \<or> e = AttributeError"
  by (cases sp)
     (auto simp: same_n_actions_def nvec_min_def nvec_max_def np_min_def np_max_def
           split: sum.splits list.splits)

lemma nvec_min_error:
  "nvec_min sp = Inl e \<Longrightarrow> e = ValueError \<or> e = AttributeError"
  by (cases sp) (auto simp: nvec_min_def np_min_def split: list.splits)

lemma DictActor_init_error:
  assumes "DictActor_init cin spaces g = Inl e"
  shows "e \<noteq> AssertionError"
proof
  assume e: "e = AssertionError"
  show False
  proof (cases "list_all (\<lambda>(key, sp). is_MultiDiscrete sp) spaces \<and>
                list_all (\<lambda>(key, sp). length (space_shape sp) = 4) spaces")
    case False
    with assms e show False by (auto simp: DictActor_init_def split: if_splits)
  next
    case True
    then have len: "list_all (\<lambda>(key, ap). length ap = 2)
                      (map (\<lambda>(key, sp). (key, action_plane_shape sp)) spaces)"
      by (auto simp: list_all_iff action_plane_shape_def)
    show False
    proof (cases "mapE (\<lambda>(key, sp). same_n_actions sp) spaces")
      case (Inl e1)
      from mapE_Inl [OF Inl] have "e1 \<noteq> AssertionError"
        by (auto dest: same_n_actions_error)
      with True Inl assms e show False by (simp add: DictActor_init_def)
    next
      case (Inr same)
      show False
      proof (cases "mapE (\<lambda>(key, sp). map_sum (\<lambda>e. e) (Pair key) (nvec_min sp)) spaces")
        case (Inl e2)
        from mapE_Inl [OF Inl] obtain key :: string and sp
          where "map_sum (\<lambda>e. e) (Pair key) (nvec_min sp) = Inl e2"
          by fastforce
        then have "nvec_min sp = Inl e2" by (cases "nvec_min sp") auto
        then have "e2 \<noteq> AssertionError" by (auto dest: nvec_min_error)
        with True Inr Inl assms e show False
          by (simp add: DictActor_init_def split: if_splits)
      next
        case n_act: (Inr n_act)
        from True Inr n_act len assms e show False
          by (auto simp: DictActor_init_def Let_def split: if_splits sum.splits
                   dest: new_actors_error)
      qed
    qed
  qed
qed

lemma DictActor_init_no_ValueError:
  assumes "\<not> (\<exists>(key, sp)\<in>set spaces. invalid_entry sp \<or> empty_nvec sp)"
  shows "DictActor_init cin spaces g = validated_init cin spaces g"
    and "DictActor_init cin spaces g \<noteq> Inl ValueError"
proof -
  from assms have ok: "\<And>key sp. (key, sp) \<in> set spaces \<Longrightarrow>
             is_MultiDiscrete sp \<and> length (space_shape sp) = 4 \<and> \<not> empty_nvec sp \<and>
             \<not> differing_n_actions sp"
    by (auto simp: invalid_entry_def)
  then show eq: "DictActor_init cin spaces g = validated_init cin spaces g"
    by (rule DictActor_init_valid)
  have "validated_init cin spaces g \<noteq> Inl ValueError"
    by (auto simp: validated_init_def Let_def split: sum.splits dest: new_actors_error)
  with eq show "DictActor_init cin spaces g \<noteq> Inl ValueError" by simp
qed

lemma DictActor_init_returns:
  assumes gym: "list_all (\<lambda>(key, sp). gym_space sp \<and> \<not> invalid_entry sp \<and> \<not> empty_nvec sp) spaces"
  shows "\<exists>da g'. DictActor_init cin spaces g = Inr (da, g')"
proof -
  from gym have none: "\<not> (\<exists>(key, sp)\<in>set spaces. invalid_entry sp \<or> empty_nvec sp)"
    by (auto simp: list_all_iff)
  then have ok: "\<And>key sp. (key, sp) \<in> set spaces \<Longrightarrow> is_MultiDiscrete sp \<and> \<not> empty_nvec sp"
    by (auto simp: invalid_entry_def)
  let ?aps = "map (\<lambda>(key, sp). (key, action_plane_shape sp)) spaces"
  let ?ns = "map (\<lambda>(key, sp). (key, projr (nvec_min sp))) spaces"
  have "list_all (\<lambda>(key, n). map_of ?aps key \<noteq> None \<and> 0 \<le> n) ?ns"
    unfolding list_all_iff
  proof
    fix kn assume "kn \<in> set ?ns"
    then obtain key sp where kn: "kn = (key, projr (nvec_min sp))" and mem: "(key, sp) \<in> set spaces"
      by auto
    from gym mem have "gym_space sp" by (auto simp: list_all_iff)
    with ok [OF mem] nvec_min_pos [of sp] have "0 \<le> projr (nvec_min sp)" by auto
    moreover have "key \<in> fst ` set ?aps" using mem by force
    then have "map_of ?aps key \<noteq> None" by (simp add: map_of_eq_None_iff)
    ultimately show "case kn of (key, n) \<Rightarrow> map_of ?aps key \<noteq> None \<and> 0 \<le> n"
      using kn by simp
  qed
  from new_actors_returns [OF this, of cin g]
  have "\<exists>da g'. validated_init cin spaces g = Inr (da, g')"
    by (auto simp: validated_init_def Let_def)
  with DictActor_init_no_ValueError(1) [OF none] show ?thesis by simp
qed

text \<open>
  Claim C2, as amended. \<open>DictActor.__init__\<close> raises ValueError exactly when some entry
  of the action space is not a MultiDiscrete space, or has a shape that is not
  4-dimensional, or has differing numbers of actions across its positions, or has an
  \<open>nvec\<close> with no entries at all (there \<open>nvec.min()\<close> itself raises ValueError). When no
  entry is of these kinds, and the spaces are as gym builds them (positive counts),
  construction returns a DictActor.
\<close>

theorem DictActor_init_ValueError_iff:
  "(DictActor_init cin spaces g = Inl ValueError \<longleftrightarrow>
      (\<exists>(key, sp)\<in>set spaces. invalid_entry sp \<or> empty_nvec sp)) \<and>
   (list_all (\<lambda>(key, sp). gym_space sp \<and> \<not> invalid_entry sp \<and> \<not> empty_nvec sp) spaces \<longrightarrow>
      (\<exists>da g'. DictActor_init cin spaces g = Inr (da, g')))"
proof (intro conjI impI)
  show "DictActor_init cin spaces g = Inl ValueError \<longleftrightarrow>
      (\<exists>(key, sp)\<in>set spaces. invalid_entry sp \<or> empty_nvec sp)"
  proof (cases "\<exists>(key, sp)\<in>set spaces. invalid_entry sp \<or> empty_nvec sp")
    case True
    then obtain key sp where "(key, sp) \<in> set spaces" "invalid_entry sp \<or> empty_nvec sp" by auto
    then have "DictActor_init cin spaces g = Inl ValueError"
      by (intro DictActor_init_invalid [of key sp]) (auto simp: invalid_entry_def)
    with True show ?thesis by simp
  next
    case False
    with DictActor_init_no_ValueError(2) [OF False] show ?thesis by simp
  qed
next
  assume "list_all (\<lambda>(key, sp). gym_space sp \<and> \<not> invalid_entry sp \<and> \<not> empty_nvec sp) spaces"
  then show "\<exists>da g'. DictActor_init cin spaces g = Inr (da, g')"
    by (rule DictActor_init_returns)
qed

text \<open>
  Claim C2 as stated fails on a 4-dimensional MultiDiscrete space with no positions,
  shape \<open>(0, 2, 12, 12)\<close>: the entry is MultiDiscrete, its shape has 4 dimensions and no two
  of its positions differ, so none of the three stated conditions holds of it, yet
  construction raises ValueError.
\<close>

theorem DictActor_init_empty_nvec_counterexample:
  "DictActor_init 16 [(''worker'', MultiDiscrete \<lparr>shape = [0, 2, 12, 12], data = []\<rparr>)]
     zero_generator = Inl ValueError \<and>
   \<not> invalid_entry (MultiDiscrete \<lparr>shape = [0, 2, 12, 12], data = []\<rparr>) \<and>
   gym_space (MultiDiscrete \<lparr>shape = [0, 2, 12, 12], data = []\<rparr>)"
  by (simp add: DictActor_init_def same_n_actions_def nvec_min_def np_min_def invalid_entry_def
      differing_n_actions_def)

theorem DictActor_init_ValueError_iff_witness:
  "DictActor_init 16 [(''worker'', MultiDiscrete \<lparr>shape = [1, 2, 1, 1], data = [3, 3]\<rparr>)]
     zero_generator \<noteq> Inl ValueError \<and>
   (\<exists>da g'. DictActor_init 16
      [(''worker'', MultiDiscrete \<lparr>shape = [1, 2, 1, 1], data = [3, 3]\<rparr>)] zero_generator
      = Inr (da, g')) \<and>
   DictActor_init 16 [(''worker'', Discrete 3)] zero_generator = Inl ValueError"
  using DictActor_init_ValueError_iff
          [of 16 "[(''worker'', MultiDiscrete \<lparr>shape = [1, 2, 1, 1], data = [3, 3]\<rparr>)]" zero_generator]
        DictActor_init_ValueError_iff [of 16 "[(''worker'', Discrete 3)]" zero_generator]
  by (simp add: invalid_entry_def differing_n_actions_def empty_nvec_def)

text \<open>
  Claim C6. The assertion of \<open>DictActor.__init__\<close> never fails: construction never
  raises AssertionError, and whenever it returns, \<open>action_plane_shapes\<close> holds
  \<open>space.shape[:-2]\<close> for every key, each of length exactly 2.
\<close>

theorem action_plane_shapes_length:
  "DictActor_init cin spaces g \<noteq> Inl AssertionError \<and>
   (\<forall>da g'. DictActor_init cin spaces g = Inr (da, g') \<longrightarrow>
      action_plane_shapes da = map (\<lambda>(key, sp). (key, action_plane_shape sp)) spaces \<and>
      list_all (\<lambda>(key, ap). length ap = 2) (action_plane_shapes da))"
proof (intro conjI allI impI)
  show "DictActor_init cin spaces g \<noteq> Inl AssertionError"
    using DictActor_init_error by blast
next
  fix da g' assume r: "DictActor_init cin spaces g = Inr (da, g')"
  then show "action_plane_shapes da = map (\<lambda>(key, sp). (key, action_plane_shape sp)) spaces"
    by (auto simp: DictActor_init_def Let_def split: if_splits sum.splits)
  from r show "list_all (\<lambda>(key, ap). length ap = 2) (action_plane_shapes da)"
    by (auto simp: DictActor_init_def Let_def split: if_splits sum.splits)
qed

theorem action_plane_shapes_length_witness:
  "DictActor_init 16 [(''worker'', MultiDiscrete \<lparr>shape = [1, 2, 1, 1], data = [3, 3]\<rparr>)]
     zero_generator \<noteq> Inl AssertionError \<and>
   (case DictActor_init 16 [(''worker'', MultiDiscrete \<lparr>shape = [1, 2, 1, 1], data = [3, 3]\<rparr>)]
           zero_generator of
      Inl e \<Rightarrow> False
    | Inr (da, g') \<Rightarrow> action_plane_shapes da = [(''worker'', [1, 2])])"
proof -
  let ?sp = "[(''worker'', MultiDiscrete \<lparr>shape = [1, 2, 1, 1], data = [3, 3]\<rparr>)]"
  have "list_all (\<lambda>(key, sp). gym_space sp \<and> \<not> invalid_entry sp \<and> \<not> empty_nvec sp) ?sp"
    by (simp add: invalid_entry_def differing_n_actions_def empty_nvec_def)
  from DictActor_init_returns [OF this, of 16 zero_generator]
  obtain da g' where r: "DictActor_init 16 ?sp zero_generator = Inr (da, g')" by blast
  with action_plane_shapes_length [of 16 ?sp zero_generator] show ?thesis
    by (simp add: action_plane_shape_def)
qed

section \<open>The forward pass of DictActor: shapes, ranges, and that it returns\<close>

lemma length_indices: "length (indices s) = prod_list s"
  by (induction s) (simp_all add: indices_def length_concat comp_def sum_list_triv)

lemma view_data: "view t dims = Inr t' \<Longrightarrow> data t' = data t"
  by (auto simp: view_def Let_def split: if_splits)

lemma view_plain:
  assumes "view t dims = Inr t'" "list_all (\<lambda>d. 0 \<le> d) dims"
  shows "shape t' = map nat dims" "prod_list (map nat dims) = numel t"
proof -
  from assms(2) have no: "\<not> list_ex (\<lambda>d. d = - 1) dims" "\<not> list_ex (\<lambda>d. d < - 1) dims"
    by (auto simp: list_all_iff list_ex_iff)
  then have f: "filter (\<lambda>d. d = - 1) dims = []" by (auto simp: list_ex_iff filter_empty_conv)
  from assms(1) no f show "shape t' = map nat dims"
    by (auto simp: view_def split: if_splits)
  from assms(1) no f have "prod_list dims = int (numel t)"
    by (auto simp: view_def split: if_splits)
  moreover from assms(2) have "int (prod_list (map nat dims)) = prod_list dims"
    by (induction dims) auto
  ultimately show "prod_list (map nat dims) = numel t" by linarith
qed

lemma view_rows:
  assumes "view t [- 1, n] = Inr t'"
  shows "0 < n" "shape t' = [numel t div nat n, nat n]" "int (numel t) mod n = 0"
  using assms
  by (auto simp: view_def Let_def nat_div_distrib split: if_splits)


lemma permute_shape:
  assumes "permute t dims = Inr t'"
  shows "length dims = length (shape t)" "shape t' = map (\<lambda>d. shape t ! d) dims"
    "length (data t') = prod_list (shape t')"
  using assms by (auto simp: permute_def length_indices split: if_splits)

lemma Conv2d_forward_shape:
  assumes "Conv2d_forward cv x = Inr y" "shape x = [b, c, h, w]"
  shows "shape y = [b, conv_out cv, h, w]" "c = conv_in cv"
  using assms by (auto simp: Conv2d_forward_def split: if_splits)

lemma rows_length: "r \<in> set (rows t) \<Longrightarrow> length r \<le> last (shape t)"
  by (auto simp: rows_def)

lemma length_rows: "length (rows t) = prod_list (butlast (shape t))"
  by (simp add: rows_def)

lemma argmax_row_less: "argmax_row r < max 1 (length r)"
proof -
  have "fold (\<lambda>j best. if r ! best < r ! j then j else best) js i < max 1 (length r)"
    if "i < max 1 (length r)" "\<forall>j\<in>set js. j < length r" for js i
    using that by (induction js arbitrary: i) auto
  then show ?thesis unfolding argmax_row_def by simp
qed

lemma find_bucket_less: "find_bucket ps t i < i + max 1 (length ps)"
  by (induction ps t i rule: find_bucket.induct) auto

lemma sample_row_less: "sample_row ps u < max 1 (length ps)"
  using find_bucket_less [of ps "u * sum_list ps" 0] by (simp add: sample_row_def)

lemma draw_rows_data:
  "draw_rows rs g = (js, g') \<Longrightarrow>
   length js = length rs \<and> (\<forall>v\<in>set js. \<exists>r\<in>set rs. 0 \<le> v \<and> v < int (max 1 (length r)))"
proof (induction rs arbitrary: g js g')
  case Nil
  then show ?case by simp
next
  case (Cons r rs)
  obtain u g1 where u: "uniform g = (u, g1)" by (cases "uniform g")
  obtain ks g2 where ks: "draw_rows rs g1 = (ks, g2)" by (cases "draw_rows rs g1")
  from Cons.prems u ks have js: "js = int (sample_row r u) # ks" by simp
  from Cons.IH [OF ks] sample_row_less [of r u] js show ?case by auto
qed

lemma softmax_shape: "softmax x axis = Inr p \<Longrightarrow> shape p = shape x"
  by (auto simp: softmax_def split: sum.splits)

lemma logits_to_actions_range:
  assumes "logits_to_actions l2 sample g = Inr (a, g')" "shape l2 = [m, n]"
  shows "shape a = (if sample then [m, 1] else [m])"
    and "\<forall>v\<in>set (data a). 0 \<le> v \<and> v < int n"
    and "0 < n"
proof -
  have rows_le: "\<And>p r. shape p = [m, n] \<Longrightarrow> r \<in> set (rows p) \<Longrightarrow> length r \<le> n"
    using rows_length by force
  show "shape a = (if sample then [m, 1] else [m])"
    using assms
    by (auto simp: logits_to_actions_def multinomial_def argmax_def
             split: if_splits sum.splits prod.splits dest!: softmax_shape)
  show n: "0 < n"
    using assms
    by (auto simp: logits_to_actions_def multinomial_def argmax_def
             split: if_splits sum.splits prod.splits dest!: softmax_shape)
  show "\<forall>v\<in>set (data a). 0 \<le> v \<and> v < int n"
  proof (cases sample)
    case True
    with assms obtain p where p: "softmax l2 (- 1) = Inr p" and mn: "multinomial p g = Inr (a, g')"
      by (auto simp: logits_to_actions_def split: sum.splits)
    from p assms(2) have sp: "shape p = [m, n]" by (simp add: softmax_shape)
    with mn obtain js where d: "draw_rows (rows p) g = (js, g')" and a: "data a = js"
      by (auto simp: multinomial_def split: if_splits prod.splits)
    from draw_rows_data [OF d] rows_le [OF sp] n a show ?thesis
      by (fastforce simp: max_def split: if_splits)
  next
    case False
    with assms have a: "data a = map (\<lambda>r. int (argmax_row r)) (rows l2)"
      by (auto simp: logits_to_actions_def argmax_def split: if_splits sum.splits)
    show ?thesis
    proof
      fix v assume "v \<in> set (data a)"
      with a obtain r where r: "r \<in> set (rows l2)" and v: "v = int (argmax_row r)" by auto
      from rows_le [OF assms(2) r] argmax_row_less [of r] n have "argmax_row r < n"
        by (auto simp: max_def split: if_splits)
      with v show "0 \<le> v \<and> v < int n" by simp
    qed
  qed
qed


lemma actor_forward_result:
  assumes r: "actor_forward self x sample b h w key cv g = Inr ((logits, acts), g')"
    and nk: "map_of (n_actions self) key = Some n"
    and ak: "map_of (action_plane_shapes self) key = Some ap"
  shows "0 < n" and "length ap = 2"
    and "shape logits = [b, ap ! 0, ap ! 1, h, w, nat n]"
    and "shape acts = [b, ap ! 0, ap ! 1, h, w]"
    and "\<forall>v\<in>set (data acts). 0 \<le> v \<and> v < n"
proof -
  from r nk ak obtain y l6 lp l2 a0 where
    y: "Conv2d_forward cv x = Inr y" and
    v6: "view y ([int b, n] @ map int ap @ [int h, int w]) = Inr l6" and
    pm: "permute l6 [0, 2, 3, 4, 5, 1] = Inr lp" and
    v2: "view (contiguous lp) [- 1, n] = Inr l2" and
    la: "logits_to_actions l2 sample g = Inr (a0, g')" and
    va: "view a0 ([int b] @ map int ap @ [int h, int w]) = Inr acts" and
    lg: "logits = contiguous lp"
    by (auto simp: actor_forward_def split: sum.splits prod.splits)
  from view_rows(1) [OF v2] show n: "0 < n" .
  from view_rows(2) [OF v2] have s2: "shape l2 = [numel (contiguous lp) div nat n, nat n]" .
  from n have "list_all (\<lambda>d. 0 \<le> d) ([int b, n] @ map int ap @ [int h, int w])"
    by (simp add: list_all_iff)
  from view_plain(1) [OF v6 this] have s6: "shape l6 = [b, nat n] @ ap @ [h, w]"
    by (simp add: comp_def)
  from permute_shape(1) [OF pm] s6 show len: "length ap = 2" by simp
  then obtain p1 p2 where ap: "ap = [p1, p2]"
    by (cases ap; cases "tl ap") auto
  from permute_shape(2) [OF pm] s6 ap have "shape lp = [b, p1, p2, h, w, nat n]" by simp
  with lg ap show "shape logits = [b, ap ! 0, ap ! 1, h, w, nat n]"
    by (simp add: contiguous_def)
  have "list_all (\<lambda>d. 0 \<le> d) ([int b] @ map int ap @ [int h, int w])"
    by (simp add: list_all_iff)
  from view_plain(1) [OF va this] ap show "shape acts = [b, ap ! 0, ap ! 1, h, w]"
    by (simp add: comp_def)
  from logits_to_actions_range(2) [OF la s2] n view_data [OF va]
  show "\<forall>v\<in>set (data acts). 0 \<le> v \<and> v < n" by simp
qed


lemma actors_loop_result:
  assumes "actors_loop self x sample b h w cvs (pl, ao) g = Inr ((pl', ao'), g')"
  shows "(map_of pl' key = map_of pl key \<and> map_of ao' key = map_of ao key \<and>
          key \<notin> fst ` set cvs) \<or>
         (\<exists>cv g1 g2 l a. (key, cv) \<in> set cvs \<and>
            actor_forward self x sample b h w key cv g1 = Inr ((l, a), g2) \<and>
            map_of pl' key = Some l \<and> map_of ao' key = Some a)"
  using assms
proof (induction cvs arbitrary: pl ao g)
  case Nil
  then show ?case by simp
next
  case (Cons kc cvs)
  obtain k0 cv0 where kc: "kc = (k0, cv0)" by (cases kc)
  from Cons.prems kc obtain l0 a0 g0 where
    st: "actor_forward self x sample b h w k0 cv0 g = Inr ((l0, a0), g0)" and
    rest: "actors_loop self x sample b h w cvs
             (AList.update k0 l0 pl, AList.update k0 a0 ao) g0 = Inr ((pl', ao'), g')"
    by (auto split: sum.splits prod.splits)
  from Cons.IH [OF rest] show ?case
  proof
    assume same: "map_of pl' key = map_of (AList.update k0 l0 pl) key \<and>
                  map_of ao' key = map_of (AList.update k0 a0 ao) key \<and> key \<notin> fst ` set cvs"
    show ?thesis
    proof (cases "key = k0")
      case True
      with same st kc show ?thesis by (auto simp: update_conv')
    next
      case False
      with same kc show ?thesis by (auto simp: update_conv')
    qed
  next
    assume "\<exists>cv g1 g2 l a. (key, cv) \<in> set cvs \<and>
            actor_forward self x sample b h w key cv g1 = Inr ((l, a), g2) \<and>
            map_of pl' key = Some l \<and> map_of ao' key = Some a"
    then obtain cv g1 g2 l a where "(key, cv) \<in> set cvs"
      "actor_forward self x sample b h w key cv g1 = Inr ((l, a), g2)"
      "map_of pl' key = Some l" "map_of ao' key = Some a" by blast
    moreover from this have "(key, cv) \<in> set (kc # cvs)" by simp
    ultimately show ?thesis by blast
  qed
qed

lemma actor_forward_keys:
  assumes "actor_forward self x sample b h w key cv g = Inr r"
  shows "\<exists>n ap. map_of (n_actions self) key = Some n \<and>
                 map_of (action_plane_shapes self) key = Some ap"
  using assms by (auto simp: actor_forward_def split: option.splits)

lemma DictActor_forward_key:
  assumes r: "DictActor_forward self x sample g = Inr ((pl, ao), g')"
    and sx: "shape x = [b, c, h, w]"
    and key: "key \<in> fst ` set (actors self)"
  shows "\<exists>n p1 p2 l a.
           map_of (n_actions self) key = Some n \<and>
           map_of (action_plane_shapes self) key = Some [p1, p2] \<and>
           map_of pl key = Some l \<and> map_of ao key = Some a \<and> 0 < n \<and>
           shape l = [b, p1, p2, h, w, nat n] \<and>
           shape a = [b, p1, p2, h, w] \<and>
           (\<forall>v\<in>set (data a). 0 \<le> v \<and> v < n)"
proof -
  from r sx have "actors_loop self x sample b h w (actors self) ([], []) g = Inr ((pl, ao), g')"
    by (simp add: DictActor_forward_def)
  from actors_loop_result [OF this, of key] key obtain cv g1 g2 l a where
    st: "actor_forward self x sample b h w key cv g1 = Inr ((l, a), g2)" and
    l: "map_of pl key = Some l" and a: "map_of ao key = Some a"
    by auto
  from actor_forward_keys [OF st] obtain n ap where
    n: "map_of (n_actions self) key = Some n" and
    ap: "map_of (action_plane_shapes self) key = Some ap" by blast
  note res = actor_forward_result [OF st n ap]
  from res(2) obtain p1 p2 where ap2: "ap = [p1, p2]"
    by (cases ap; cases "tl ap") auto
  from res ap2 n ap l a show ?thesis by simp
qed

lemma length_concat_blocks:
  "(\<And>i. i < m \<Longrightarrow> length (blk i) = n) \<Longrightarrow> length (concat (map blk [0..<m])) = m * n"
  by (induction m) simp_all

lemma take_drop_concat_blocks:
  "(\<And>i. i < m \<Longrightarrow> length (blk i) = n) \<Longrightarrow> r < m \<Longrightarrow>
   take n (drop (r * n) (concat (map blk [0..<m]))) = blk r"
proof (induction m)
  case 0
  then show ?case by simp
next
  case (Suc m)
  have len: "length (concat (map blk [0..<m])) = m * n"
    using Suc.prems(1) by (intro length_concat_blocks) simp
  show ?case
  proof (cases "r < m")
    case True
    then have "Suc r \<le> m" by simp
    then have "Suc r * n \<le> m * n" by (rule mult_le_mono1)
    then have le: "r * n + n \<le> m * n" by simp
    from Suc.IH [OF _ True] Suc.prems(1)
    have IH: "take n (drop (r * n) (concat (map blk [0..<m]))) = blk r" by simp
    from le len show ?thesis by (simp add: IH)
  next
    case False
    with Suc.prems(2) have "r = m" by simp
    with len Suc.prems(1) [of m] show ?thesis by simp
  qed
qed

lemma indices_matrix:
  "indices [m, n] = concat (map (\<lambda>i. map (\<lambda>j. [i, j]) [0..<n]) [0..<m])"
  by (simp add: indices_def comp_def concat_map_singleton)

lemma rows_matrix:
  assumes "shape p = [m, n]" "data p = map f (indices [m, n])"
  shows "rows p = map (\<lambda>r. map (\<lambda>j. f [r, j]) [0..<n]) [0..<m]"
proof -
  have d: "data p = concat (map (\<lambda>i. map (\<lambda>j. f [i, j]) [0..<n]) [0..<m])"
    by (simp add: assms(2) indices_matrix map_concat comp_def)
  have "take n (drop (r * n) (data p)) = map (\<lambda>j. f [r, j]) [0..<n]" if "r < m" for r
    unfolding d by (rule take_drop_concat_blocks) (use that in simp_all)
  then show ?thesis by (simp add: rows_def assms(1))
qed


lemma sum_list_pos_real:
  "xs \<noteq> [] \<Longrightarrow> (\<And>v. v \<in> set xs \<Longrightarrow> 0 < v) \<Longrightarrow> 0 < sum_list (xs :: real list)"
  by (induction xs) (auto simp: add_pos_nonneg sum_list_nonneg less_imp_le)

lemma softmax_matrix:
  assumes "shape x = [m, n]"
  shows "softmax x (- 1) =
         Inr (x\<lparr>data := map (\<lambda>idx. exp (entry x idx) /
                                (\<Sum>j\<leftarrow>[0..<n]. exp (entry x (idx[1 := j]))))
                           (indices [m, n])\<rparr>)"
  using assms by (simp add: softmax_def normalize_dim_def)

lemma softmax_entry_pos:
  assumes "0 < n"
  shows "0 < exp (v :: real) / (\<Sum>j\<leftarrow>[0..<n]. exp (g j))"
proof -
  have "0 < (\<Sum>j\<leftarrow>[0..<n]. exp (g j))"
    using assms by (intro sum_list_pos_real) auto
  then show ?thesis by simp
qed

lemma multinomial_softmax_returns:
  assumes sx: "shape x = [m, n]" and n: "0 < n"
  shows "\<exists>p a g'. softmax x (- 1) = Inr p \<and> multinomial p g = Inr (a, g') \<and> shape a = [m, 1]"
proof -
  define f where "f = (\<lambda>idx. exp (entry x idx) / (\<Sum>j\<leftarrow>[0..<n]. exp (entry x (idx[1 := j]))))"
  define p where "p = x\<lparr>data := map f (indices [m, n])\<rparr>"
  have sm: "softmax x (- 1) = Inr p"
    unfolding p_def f_def using sx by (rule softmax_matrix)
  have sp: "shape p = [m, n]" and dp: "data p = map f (indices [m, n])"
    by (simp_all add: p_def sx)
  have fpos: "0 < f idx" for idx unfolding f_def using n by (rule softmax_entry_pos)
  have rw: "rows p = map (\<lambda>r. map (\<lambda>j. f [r, j]) [0..<n]) [0..<m]"
    using sp dp by (rule rows_matrix)
  have ok: "\<not> list_ex (\<lambda>r. list_ex (\<lambda>v. v < 0) r \<or> sum_list r \<le> 0) (rows p)"
  proof -
    have "\<not> (list_ex (\<lambda>v. v < 0) r \<or> sum_list r \<le> 0)" if "r \<in> set (rows p)" for r
    proof -
      from that rw obtain i where r: "r = map (\<lambda>j. f [i, j]) [0..<n]" by auto
      have "0 < sum_list r" unfolding r using n fpos by (intro sum_list_pos_real) auto
      moreover have "\<not> list_ex (\<lambda>v. v < 0) r"
        unfolding r using fpos by (auto simp: list_ex_iff not_less less_imp_le)
      ultimately show ?thesis by simp
    qed
    then show ?thesis by (auto simp: list_ex_iff)
  qed
  obtain js g' where "draw_rows (rows p) g = (js, g')" by (cases "draw_rows (rows p) g")
  with sp n ok have "multinomial p g = Inr (\<lparr>shape = [m, 1], data = js\<rparr>, g')"
    by (simp add: multinomial_def)
  with sm show ?thesis by force
qed

lemma logits_to_actions_returns:
  assumes sx: "shape l2 = [m, n]" and n: "0 < n"
  shows "\<exists>a g'. logits_to_actions l2 sample g = Inr (a, g') \<and>
                 shape a = (if sample then [m, 1] else [m])"
proof (cases sample)
  case True
  from multinomial_softmax_returns [OF sx n, of g] True show ?thesis
    by (auto simp: logits_to_actions_def)
next
  case False
  with sx n show ?thesis by (simp add: logits_to_actions_def argmax_def)
qed

lemma actor_forward_returns:
  assumes nk: "map_of (n_actions self) key = Some n"
    and ak: "map_of (action_plane_shapes self) key = Some ap"
    and n: "0 < n" and len: "length ap = 2"
    and cin: "conv_in cv = c" and cout: "conv_out cv = nat (n * int (prod_list ap))"
    and sx: "shape x = [b, c, h, w]" and pos: "0 < c" "0 < h" "0 < w"
  shows "\<exists>l a g'. actor_forward self x sample b h w key cv g = Inr ((l, a), g')"
proof -
  from len obtain p1 p2 where ap: "ap = [p1, p2]"
    by (cases ap; cases "tl ap") auto
  obtain y where y: "Conv2d_forward cv x = Inr y" and sy: "shape y = [b, conv_out cv, h, w]"
    using sx cin pos by (simp add: Conv2d_forward_def)
  have co: "conv_out cv = nat n * (p1 * p2)"
    using cout ap n by (simp add: nat_mult_distrib)
  have ny: "int (numel y) = int b * n * int p1 * int p2 * int h * int w"
    using sy co n by (simp add: numel_def)
  define l6 where "l6 = y\<lparr>shape := [b, nat n, p1, p2, h, w]\<rparr>"
  have v6: "view y ([int b, n] @ map int ap @ [int h, int w]) = Inr l6"
    using n ny by (simp add: view_def ap l6_def)
  have six: "[0..<6] = [0, 1, 2, 3, 4, 5::nat]" by (simp add: upt_rec)
  have "\<not> (length [0, 2, 3, 4, 5, 1::nat] \<noteq> length (shape l6) \<or>
           \<not> list_all (\<lambda>j. j \<in> set [0, 2, 3, 4, 5, 1::nat]) [0..<length (shape l6)])"
    by (simp add: l6_def six)
  then obtain lp where pm: "permute l6 [0, 2, 3, 4, 5, 1] = Inr lp"
    unfolding permute_def by (auto simp only: if_False)
  from permute_shape(2) [OF pm] have slp: "shape lp = [b, p1, p2, h, w, nat n]"
    by (simp add: l6_def)
  have nl: "int (numel (contiguous lp)) = int b * int p1 * int p2 * int h * int w * n"
    using n by (simp add: numel_def slp contiguous_def)
  define m where "m = b * p1 * p2 * h * w"
  have nm: "int (numel (contiguous lp)) = int m * n" using nl by (simp add: m_def)
  then have dv: "int (numel (contiguous lp)) div n = int m" using n by simp
  define l2 where "l2 = contiguous lp\<lparr>shape := [m, nat n]\<rparr>"
  have v2: "view (contiguous lp) [- 1, n] = Inr l2"
    using n nm dv by (simp add: view_def l2_def)
  have s2: "shape l2 = [m, nat n]" by (simp add: l2_def)
  from logits_to_actions_returns [OF s2, of sample g] n obtain a0 g' where
    la: "logits_to_actions l2 sample g = Inr (a0, g')" and
    sa: "shape a0 = (if sample then [m, 1] else [m])" by auto
  have na: "numel a0 = m" using sa by (simp add: numel_def)
  have va: "view a0 ([int b] @ map int ap @ [int h, int w]) = Inr (a0\<lparr>shape := [b, p1, p2, h, w]\<rparr>)"
    using na by (simp add: view_def ap m_def)
  show ?thesis
    using nk ak y v6 pm v2 la va by (simp add: actor_forward_def)
qed

lemma actors_loop_returns:
  assumes "list_all (\<lambda>(key, cv).
        (case map_of (n_actions self) key of
           None \<Rightarrow> False
         | Some n \<Rightarrow>
            (case map_of (action_plane_shapes self) key of
               None \<Rightarrow> False
             | Some ap \<Rightarrow>
                 0 < n \<and> length ap = 2 \<and> conv_in cv = c \<and>
                 conv_out cv = nat (n * int (prod_list ap))))) cvs"
    and sx: "shape x = [b, c, h, w]" and pos: "0 < c" "0 < h" "0 < w"
  shows "\<exists>r g'. actors_loop self x sample b h w cvs out g = Inr (r, g')"
  using assms(1)
proof (induction cvs arbitrary: out g)
  case Nil
  then show ?case by simp
next
  case (Cons kc cvs)
  obtain key cv where kc: "kc = (key, cv)" by (cases kc)
  obtain pl ao where out: "out = (pl, ao)" by (cases out)
  from Cons.prems kc obtain n ap where
    "map_of (n_actions self) key = Some n" "map_of (action_plane_shapes self) key = Some ap"
    "0 < n" "length ap = 2" "conv_in cv = c" "conv_out cv = nat (n * int (prod_list ap))"
    by (auto split: option.splits)
  from actor_forward_returns [OF this sx pos, of sample g] obtain l a g1 where
    st: "actor_forward self x sample b h w key cv g = Inr ((l, a), g1)" by blast
  from Cons.prems have "list_all (\<lambda>(key, cv).
        (case map_of (n_actions self) key of
           None \<Rightarrow> False
         | Some n \<Rightarrow>
            (case map_of (action_plane_shapes self) key of
               None \<Rightarrow> False
             | Some ap \<Rightarrow>
                 0 < n \<and> length ap = 2 \<and> conv_in cv = c \<and>
                 conv_out cv = nat (n * int (prod_list ap))))) cvs" by simp
  from Cons.IH [OF this] kc out st show ?case by simp
qed

lemma DictActor_forward_returns:
  assumes "actor_built c self" "shape x = [b, c, h, w]" "0 < c" "0 < h" "0 < w"
  shows "\<exists>pl ao g'. DictActor_forward self x sample g = Inr ((pl, ao), g')"
proof -
  from assms(1) have "list_all (\<lambda>(key, cv).
        (case map_of (n_actions self) key of
           None \<Rightarrow> False
         | Some n \<Rightarrow>
            (case map_of (action_plane_shapes self) key of
               None \<Rightarrow> False
             | Some ap \<Rightarrow>
                 0 < n \<and> length ap = 2 \<and> conv_in cv = c \<and>
                 conv_out cv = nat (n * int (prod_list ap))))) (actors self)"
    unfolding actor_built_def list_all_iff by (auto split: option.splits)
  from actors_loop_returns [OF this assms(2-5), of sample "([], [])" g]
  obtain r g' where "actors_loop self x sample b h w (actors self) ([], []) g = Inr (r, g')"
    by blast
  with assms(2) show ?thesis by (cases r) (simp add: DictActor_forward_def)
qed


lemma list_all2_right_mem:
  "list_all2 P xs ys \<Longrightarrow> y \<in> set ys \<Longrightarrow> \<exists>x\<in>set xs. P x y"
  by (induction rule: list_all2_induct) auto


lemma new_actors_built:
  "new_actors cin aps ns g = Inr (cs, g') \<Longrightarrow>
   list_all2 (\<lambda>(key, n) (key', cv). key' = key \<and>
       (\<exists>ap. map_of aps key = Some ap \<and> conv_in cv = cin \<and>
             conv_out cv = nat (n * int (prod_list ap)))) ns cs"
proof (induction ns arbitrary: g cs)
  case Nil
  then show ?case by simp
next
  case (Cons kn ns)
  obtain key n where kn: "kn = (key, n)" by (cases kn)
  from Cons.prems kn obtain ap cv g1 cs1 where
    ap: "map_of aps key = Some ap" and
    cv: "Conv2d_new cin (n * int (prod_list ap)) g = Inr (cv, g1)" and
    rest: "new_actors cin aps ns g1 = Inr (cs1, g')" and cs: "cs = (key, cv) # cs1"
    by (auto split: option.splits sum.splits prod.splits)
  from cv have "conv_in cv = cin \<and> conv_out cv = nat (n * int (prod_list ap))"
    by (auto simp: Conv2d_new_def uniform_list_def split: if_splits)
  with Cons.IH [OF rest] kn ap cs show ?case by simp
qed

lemma DictActor_init_built:
  assumes r: "DictActor_init cin spaces g = Inr (da, g')" and gym: "gym_dict spaces"
  shows "actor_built cin da"
proof -
  have none: "\<not> (\<exists>(key, sp)\<in>set spaces. invalid_entry sp \<or> empty_nvec sp)"
  proof
    assume "\<exists>(key, sp)\<in>set spaces. invalid_entry sp \<or> empty_nvec sp"
    then obtain key sp where "(key, sp) \<in> set spaces" "invalid_entry sp \<or> empty_nvec sp" by auto
    then have "DictActor_init cin spaces g = Inl ValueError"
      by (intro DictActor_init_invalid [of key sp]) (auto simp: invalid_entry_def)
    with r show False by simp
  qed
  let ?ns = "map (\<lambda>(key, sp). (key, projr (nvec_min sp))) spaces"
  let ?aps = "map (\<lambda>(key, sp). (key, action_plane_shape sp)) spaces"
  from DictActor_init_no_ValueError(1) [OF none, of cin g] r
  have v: "validated_init cin spaces g = Inr (da, g')" by simp
  then have nd: "n_actions da = ?ns" and ad: "action_plane_shapes da = ?aps"
    and na: "new_actors cin ?aps ?ns g = Inr (actors da, g')"
    by (auto simp: validated_init_def Let_def split: sum.splits)
  from gym have dist: "distinct (map fst spaces)" by (simp add: gym_dict_def)
  have dns: "distinct (map fst ?ns)" using dist by (simp add: comp_def case_prod_unfold)
  have "case kc of (key, cv) \<Rightarrow>
        (case map_of (n_actions da) key of
           None \<Rightarrow> False
         | Some n \<Rightarrow>
            (case map_of (action_plane_shapes da) key of
               None \<Rightarrow> False
             | Some ap \<Rightarrow>
                 0 < n \<and> length ap = 2 \<and> 0 < prod_list ap \<and> conv_in cv = cin \<and>
                 conv_out cv = nat (n * int (prod_list ap))))"
    if kc: "kc \<in> set (actors da)" for kc
  proof -
    obtain key cv where [simp]: "kc = (key, cv)" by (cases kc)
    from list_all2_right_mem [OF new_actors_built [OF na] kc]
    obtain k n where kn: "(k, n) \<in> set ?ns" and
      rel: "key = k \<and> (\<exists>ap. map_of ?aps k = Some ap \<and> conv_in cv = cin \<and>
                     conv_out cv = nat (n * int (prod_list ap)))"
      by fastforce
    from rel obtain ap where k: "k = key" and ap: "map_of ?aps key = Some ap"
      and cv: "conv_in cv = cin" "conv_out cv = nat (n * int (prod_list ap))" by auto
    from kn k dns have mn: "map_of ?ns key = Some n" by (intro map_of_is_SomeI) auto
    from kn k obtain sp where sp: "(key, sp) \<in> set spaces" and n: "n = projr (nvec_min sp)"
      by auto
    from none sp have md: "is_MultiDiscrete sp" "\<not> empty_nvec sp" "length (space_shape sp) = 4"
      by (auto simp: invalid_entry_def)
    from gym sp have "gym_space sp" by (auto simp: gym_dict_def list_all_iff)
    with nvec_min_pos [OF md(1) _ md(2)] n have npos: "0 < n" by auto
    from map_of_SomeD [OF ap] obtain sp' where "(key, sp') \<in> set spaces" "ap = action_plane_shape sp'"
      by auto
    from this none have "length (space_shape sp') = 4" by (auto simp: invalid_entry_def)
    with \<open>ap = action_plane_shape sp'\<close>
    have "length ap = 2" by (simp add: action_plane_shape_def)
    moreover have "0 < prod_list ap"
    proof -
      from gym \<open>(key, sp') \<in> set spaces\<close> have g': "gym_space sp'"
        by (auto simp: gym_dict_def list_all_iff)
      from none \<open>(key, sp') \<in> set spaces\<close>
      have "is_MultiDiscrete sp'" "\<not> empty_nvec sp'" by (auto simp: invalid_entry_def)
      then obtain nv where nv: "sp' = MultiDiscrete nv" "data nv \<noteq> []"
        by (cases sp') (auto simp: empty_nvec_def)
      then have "0 < length (data nv)" by simp
      with g' nv have "0 < prod_list (space_shape sp')" by simp
      then have "prod_list (space_shape sp') \<noteq> 0" by simp
      then have "0 \<notin> set (space_shape sp')" by (simp only: prod_list_zero_iff not_False_eq_True)
      then have "0 \<notin> set (take (length (space_shape sp') - 2) (space_shape sp'))"
        by (auto dest: in_set_takeD)
      then have "prod_list (take (length (space_shape sp') - 2) (space_shape sp')) \<noteq> 0"
        by (simp only: prod_list_zero_iff not_False_eq_True)
      then show ?thesis
        using \<open>ap = action_plane_shape sp'\<close> by (simp add: action_plane_shape_def)
    qed
    ultimately show ?thesis using mn ap cv npos by (simp add: nd ad)
  qed
  then show ?thesis unfolding actor_built_def list_all_iff by blast
qed

lemma example_actor_built: "actor_built 1 example_actor"
  by (simp add: actor_built_def example_actor_def)


lemma two: "[0..<2] = [0, Suc 0]" and six: "[0..<6] = [0, 1, 2, 3, 4, 5::nat]"
  by (simp_all add: upt_rec)

lemma ex_run:
  "DictActor_forward example_actor example_input False g =
   Inr (([(''worker'', \<lparr>shape = [1, 1, 1, 1, 2, 2], data = [1, - 1, - 1, 1]\<rparr>)],
         [(''worker'', \<lparr>shape = [1, 1, 1, 1, 2], data = [0, 1]\<rparr>)]), g)"
  by (simp add: DictActor_forward_def example_actor_def example_input_def actor_forward_def
       Conv2d_forward_def view_def permute_def contiguous_def logits_to_actions_def argmax_def
       argmax_row_def rows_def indices_def entry_def numel_def two six Let_def)

lemma draw_rows_length: "draw_rows rs g = (js, g') \<Longrightarrow> length js = length rs"
  using draw_rows_data by blast

lemma logits_to_actions_length:
  assumes "logits_to_actions l2 sample g = Inr (a, g')" "shape l2 = [m, n]"
  shows "length (data a) = m"
proof (cases sample)
  case True
  with assms obtain p where p: "softmax l2 (- 1) = Inr p" and mn: "multinomial p g = Inr (a, g')"
    by (auto simp: logits_to_actions_def split: sum.splits)
  from p assms(2) have sp: "shape p = [m, n]" by (simp add: softmax_shape)
  with mn obtain js where d: "draw_rows (rows p) g = (js, g')" and a: "data a = js"
    by (auto simp: multinomial_def split: if_splits prod.splits)
  from draw_rows_length [OF d] a sp show ?thesis by (simp add: length_rows)
next
  case False
  with assms show ?thesis
    by (auto simp: logits_to_actions_def argmax_def length_rows split: if_splits sum.splits)
qed

lemma actor_forward_length:
  assumes r: "actor_forward self x sample b h w key cv g = Inr ((logits, acts), g')"
    and nk: "map_of (n_actions self) key = Some n"
    and ak: "map_of (action_plane_shapes self) key = Some [p1, p2]"
  shows "length (data acts) = b * p1 * p2 * h * w"
proof -
  from r nk ak obtain y l6 lp l2 a0 where
    v2: "view (contiguous lp) [- 1, n] = Inr l2" and
    la: "logits_to_actions l2 sample g = Inr (a0, g')" and
    va: "view a0 ([int b] @ map int [p1, p2] @ [int h, int w]) = Inr acts" and
    lg: "logits = contiguous lp"
    by (auto simp: actor_forward_def split: sum.splits prod.splits)
  from actor_forward_result [OF r nk ak] lg
  have n: "0 < n" and sl: "shape (contiguous lp) = [b, p1, p2, h, w, nat n]" by simp_all
  from view_rows(2) [OF v2] have s2: "shape l2 = [numel (contiguous lp) div nat n, nat n]" .
  have "numel (contiguous lp) div nat n = b * p1 * p2 * h * w"
    using n sl by (simp add: numel_def)
  with logits_to_actions_length [OF la s2] view_data [OF va] show ?thesis by simp
qed

lemma DictActor_forward_key_length:
  assumes r: "DictActor_forward self x sample g = Inr ((pl, ao), g')"
    and sx: "shape x = [b, c, h, w]"
    and key: "key \<in> fst ` set (actors self)"
    and ak: "map_of (action_plane_shapes self) key = Some [p1, p2]"
    and a: "map_of ao key = Some a"
  shows "length (data a) = b * p1 * p2 * h * w"
proof -
  from r sx have "actors_loop self x sample b h w (actors self) ([], []) g = Inr ((pl, ao), g')"
    by (simp add: DictActor_forward_def)
  from actors_loop_result [OF this, of key] key a obtain cv g1 g2 l where
    st: "actor_forward self x sample b h w key cv g1 = Inr ((l, a), g2)"
    by auto
  from actor_forward_keys [OF st] obtain n where
    n: "map_of (n_actions self) key = Some n" by blast
  from actor_forward_length [OF st n ak] show ?thesis .
qed

lemma DictActor_forward_input_shape:
  "DictActor_forward self x sample g = Inr r \<Longrightarrow> \<exists>b c h w. shape x = [b, c, h, w]"
  by (auto simp: DictActor_forward_def split: list.splits)

lemma nth_concat_blocks:
  assumes "\<And>i. i < m \<Longrightarrow> length (blk i) = n" "i < m" "r < n"
  shows "concat (map blk [0..<m]) ! (i * n + r) = blk i ! r"
proof -
  have len: "length (concat (map blk [0..<m])) = m * n"
    using assms(1) by (rule length_concat_blocks)
  have "Suc i * n \<le> m * n" using assms(2) by (intro mult_le_mono1) simp
  then have le: "i * n + n \<le> m * n" by simp
  have "blk i ! r = take n (drop (i * n) (concat (map blk [0..<m]))) ! r"
    using take_drop_concat_blocks [of m blk n i] assms(1,2) by simp
  also have "\<dots> = drop (i * n) (concat (map blk [0..<m])) ! r"
    using assms(3) by simp
  also have "\<dots> = concat (map blk [0..<m]) ! (i * n + r)"
  proof -
    have "i * n \<le> m * n" using assms(2) by (intro mult_le_mono1) simp
    then have "i * n \<le> length (concat (map blk [0..<m]))" using len by simp
    then show ?thesis by (rule nth_drop)
  qed
  finally show ?thesis by simp
qed

lemma ravel_less:
  "list_all2 (\<lambda>i d. i < d) idx s \<Longrightarrow> ravel s idx < prod_list s"
proof (induction s arbitrary: idx)
  case Nil
  then show ?case by simp
next
  case (Cons d ds)
  from Cons.prems obtain i js where idx: "idx = i # js" and i: "i < d"
    and js: "list_all2 (\<lambda>i d. i < d) js ds"
    by (auto simp: list_all2_Cons2)
  from Cons.IH [OF js] have r: "ravel ds js < prod_list ds" .
  have "i * prod_list ds + ravel ds js < i * prod_list ds + prod_list ds" using r by simp
  also have "\<dots> = Suc i * prod_list ds" by simp
  also have "\<dots> \<le> d * prod_list ds" using i by (intro mult_le_mono1) simp
  finally show ?case using idx by simp
qed

lemma indices_Cons:
  "indices (d # ds) = concat (map (\<lambda>i. map ((#) i) (indices ds)) [0..<d])"
  by (simp add: indices_def comp_def)

lemma indices_nth_ravel:
  "list_all2 (\<lambda>i d. i < d) idx s \<Longrightarrow> indices s ! ravel s idx = idx"
proof (induction s arbitrary: idx)
  case Nil
  then show ?case by (simp add: indices_def)
next
  case (Cons d ds)
  from Cons.prems obtain i js where idx: "idx = i # js" and i: "i < d"
    and js: "list_all2 (\<lambda>i d. i < d) js ds"
    by (auto simp: list_all2_Cons2)
  have r: "ravel ds js < prod_list ds" using js by (rule ravel_less)
  have "indices (d # ds) ! (i * prod_list ds + ravel ds js)
        = map ((#) i) (indices ds) ! ravel ds js"
    unfolding indices_Cons
    by (rule nth_concat_blocks) (use i r in \<open>simp_all add: length_indices\<close>)
  also have "\<dots> = i # indices ds ! ravel ds js" using r by (simp add: length_indices)
  also have "\<dots> = i # js" using Cons.IH [OF js] by simp
  finally show ?case using idx by simp
qed

lemma entry_map_indices:
  assumes "data t = map F (indices (shape t))" "list_all2 (\<lambda>i d. i < d) idx (shape t)"
  shows "entry t idx = F idx"
proof -
  from ravel_less [OF assms(2)] have "ravel (shape t) idx < length (indices (shape t))"
    by (simp add: length_indices)
  then show ?thesis
    using indices_nth_ravel [OF assms(2)] by (simp add: entry_def assms(1))
qed

lemma permute_entry:
  assumes "permute t dims = Inr t'" "list_all2 (\<lambda>i d. i < d) idx (shape t')"
  shows "entry t' idx = entry t (map (\<lambda>j. idx ! index_of dims j) [0..<length (shape t)])"
proof -
  from assms(1) have
    "data t' = map (\<lambda>idx. entry t (map (\<lambda>j. idx ! index_of dims j) [0..<length (shape t)]))
                   (indices (shape t'))"
    by (auto simp: permute_def split: if_splits)
  from entry_map_indices [OF this assms(2)] show ?thesis .
qed

lemma Conv2d_forward_entry:
  assumes y: "Conv2d_forward cv x = Inr y" and sx: "shape x = [b, c, h, w]"
    and idx: "bi < b" "k < conv_out cv" "i < h" "j < w"
  shows "entry y [bi, k, i, j] =
         conv_bias cv ! k +
         (\<Sum>ci\<leftarrow>[0..<c]. conv_weight cv ! (k * c + ci) * entry x [bi, ci, i, j])"
proof -
  from y sx have sy: "shape y = [b, conv_out cv, h, w]" and
    dy: "data y = map (\<lambda>idx. conv_bias cv ! (idx ! 1) +
                        (\<Sum>ci\<leftarrow>[0..<c]. conv_weight cv ! ((idx ! 1) * c + ci) *
                                         entry x [idx ! 0, ci, idx ! 2, idx ! 3]))
                     (indices (shape y))"
    by (auto simp: Conv2d_forward_def split: if_splits)
  from idx sy have "list_all2 (\<lambda>i d. i < d) [bi, k, i, j] (shape y)" by simp
  from entry_map_indices [OF dy this] show ?thesis by simp
qed

lemma actor_forward_logits_entry:
  assumes r: "actor_forward self x sample b h w key cv g = Inr ((logits, acts), g')"
    and nk: "map_of (n_actions self) key = Some n"
    and ak: "map_of (action_plane_shapes self) key = Some [p1, p2]"
    and sx: "shape x = [b, c, h, w]"
  shows "\<exists>y. Conv2d_forward cv x = Inr y \<and>
             length (data logits) = b * p1 * p2 * h * w * nat n \<and>
             (0 < b \<longrightarrow> conv_out cv = nat n * p1 * p2) \<and>
             (\<forall>bi<b. \<forall>i1<p1. \<forall>i2<p2. \<forall>i<h. \<forall>j<w. \<forall>a<nat n.
                entry logits [bi, i1, i2, i, j, a] = entry y [bi, (a * p1 + i1) * p2 + i2, i, j])"
proof -
  from r nk ak obtain y l6 lp where
    y: "Conv2d_forward cv x = Inr y" and
    v6: "view y ([int b, n] @ map int [p1, p2] @ [int h, int w]) = Inr l6" and
    pm: "permute l6 [0, 2, 3, 4, 5, 1] = Inr lp" and
    lg: "logits = contiguous lp"
    by (auto simp: actor_forward_def split: sum.splits prod.splits)
  from actor_forward_result(1) [OF r nk ak] have n: "0 < n" .
  from n have "list_all (\<lambda>d. 0 \<le> d) ([int b, n] @ map int [p1, p2] @ [int h, int w])"
    by (simp add: list_all_iff)
  note vp = view_plain [OF v6 this]
  from vp(1) have s6: "shape l6 = [b, nat n, p1, p2, h, w]" by simp
  from Conv2d_forward_shape(1) [OF y sx] have sy: "shape y = [b, conv_out cv, h, w]" .
  from permute_shape(2,3) [OF pm] s6 have slp: "shape lp = [b, p1, p2, h, w, nat n]"
    and llp: "length (data lp) = b * p1 * p2 * h * w * nat n" by simp_all
  have hw: "0 < h" "0 < w"
    using y sx by (auto simp: Conv2d_forward_def split: if_splits)
  have co: "conv_out cv = nat n * p1 * p2" if "0 < b"
    using vp(2) sy hw that by (auto simp: numel_def)
  have "entry logits [bi, i1, i2, i, j, a] = entry y [bi, (a * p1 + i1) * p2 + i2, i, j]"
    if "bi < b" "i1 < p1" "i2 < p2" "i < h" "j < w" "a < nat n" for bi i1 i2 i j a
  proof -
    from that slp have "list_all2 (\<lambda>i d. i < d) [bi, i1, i2, i, j, a] (shape lp)" by simp
    from permute_entry [OF pm this]
    have "entry lp [bi, i1, i2, i, j, a] = entry l6 [bi, a, i1, i2, i, j]"
      by (simp add: s6 six)
    also have "\<dots> = data y ! ravel [b, nat n, p1, p2, h, w] [bi, a, i1, i2, i, j]"
      by (simp add: entry_def s6 view_data [OF v6])
    also have "ravel [b, nat n, p1, p2, h, w] [bi, a, i1, i2, i, j]
             = ravel [b, conv_out cv, h, w] [bi, (a * p1 + i1) * p2 + i2, i, j]"
    proof -
      from that have "0 < b" "0 < h" "0 < w" by simp_all
      with vp(2) sy have "conv_out cv = nat n * p1 * p2" by (auto simp: numel_def)
      then show ?thesis by (simp add: algebra_simps)
    qed
    finally show ?thesis by (simp add: lg contiguous_def entry_def sy)
  qed
  with y llp lg co show ?thesis by (auto simp: contiguous_def)
qed

lemma plane_channel_less:
  assumes "a < n" "i1 < p1" "i2 < (p2::nat)"
  shows "(a * p1 + i1) * p2 + i2 < n * p1 * p2"
proof -
  from assms have "list_all2 (\<lambda>i d. i < d) [a, i1, i2] [n, p1, p2]" by simp
  from ravel_less [OF this] show ?thesis by (simp add: algebra_simps)
qed

lemma DictActor_forward_key_entry:
  assumes r: "DictActor_forward self x sample g = Inr ((pl, ao), g')"
    and sx: "shape x = [b, c, h, w]"
    and key: "key \<in> fst ` set (actors self)"
    and nk: "map_of (n_actions self) key = Some n"
    and ak: "map_of (action_plane_shapes self) key = Some [p1, p2]"
    and l: "map_of pl key = Some logits"
  shows "\<exists>cv. (key, cv) \<in> set (actors self) \<and>
             length (data logits) = b * p1 * p2 * h * w * nat n \<and>
             (\<forall>bi<b. \<forall>i1<p1. \<forall>i2<p2. \<forall>i<h. \<forall>j<w. \<forall>a<nat n.
                entry logits [bi, i1, i2, i, j, a] =
                conv_bias cv ! ((a * p1 + i1) * p2 + i2) +
                (\<Sum>ci\<leftarrow>[0..<c].
                    conv_weight cv ! (((a * p1 + i1) * p2 + i2) * c + ci) *
                    entry x [bi, ci, i, j]))"
proof -
  from r sx have "actors_loop self x sample b h w (actors self) ([], []) g = Inr ((pl, ao), g')"
    by (simp add: DictActor_forward_def)
  from actors_loop_result [OF this, of key] key l obtain cv g1 g2 a where
    mem: "(key, cv) \<in> set (actors self)" and
    st: "actor_forward self x sample b h w key cv g1 = Inr ((logits, a), g2)"
    by auto
  from actor_forward_logits_entry [OF st nk ak sx] obtain y where
    y: "Conv2d_forward cv x = Inr y" and
    len: "length (data logits) = b * p1 * p2 * h * w * nat n" and
    co: "0 < b \<longrightarrow> conv_out cv = nat n * p1 * p2" and
    en: "\<forall>bi<b. \<forall>i1<p1. \<forall>i2<p2. \<forall>i<h. \<forall>j<w. \<forall>a<nat n.
           entry logits [bi, i1, i2, i, j, a] = entry y [bi, (a * p1 + i1) * p2 + i2, i, j]"
    by blast
  have "entry logits [bi, i1, i2, i, j, a] =
                conv_bias cv ! ((a * p1 + i1) * p2 + i2) +
                (\<Sum>ci\<leftarrow>[0..<c].
                    conv_weight cv ! (((a * p1 + i1) * p2 + i2) * c + ci) *
                    entry x [bi, ci, i, j])"
    if "bi < b" "i1 < p1" "i2 < p2" "i < h" "j < w" "a < nat n" for bi i1 i2 i j a
  proof -
    from that co have "conv_out cv = nat n * p1 * p2" by simp
    with plane_channel_less [OF that(6,2,3)]
    have k: "(a * p1 + i1) * p2 + i2 < conv_out cv" by simp
    from en that have "entry logits [bi, i1, i2, i, j, a]
                     = entry y [bi, (a * p1 + i1) * p2 + i2, i, j]" by simp
    also note Conv2d_forward_entry [OF y sx that(1) k that(4,5)]
    finally show ?thesis .
  qed
  with mem len show ?thesis by blast
qed

lemma example_actor_returns:
  "\<exists>pl ao g'. DictActor_forward example_actor example_input sample g = Inr ((pl, ao), g')"
proof -
  have "shape example_input = [1, 1, 1, 2]" by (simp add: example_input_def)
  from DictActor_forward_returns [OF example_actor_built this, of sample g]
  show ?thesis by simp
qed

section \<open>What DictActor.forward returns\<close>

text \<open>
  Claim C4. On an input of shape \<open>(b, c, h, w)\<close>, \<open>DictActor.forward\<close> returns, for every
  key of its actors, policy logits of shape \<open>(b, p1, p2, h, w, n_actions[key])\<close>, where
  \<open>(p1, p2)\<close> is the action plane shape of the key. The action dimension is last: the
  entry at \<open>(bi, i1, i2, i, j, a)\<close> is the output of the key's convolution at batch
  element \<open>bi\<close> and location \<open>(i, j)\<close> in the channel of action \<open>a\<close> and plane
  \<open>(i1, i2)\<close>, channel \<open>(a * p1 + i1) * p2 + i2\<close>, so the entries over \<open>a\<close> are the one
  logit vector of that location and plane. It does return when the object is as the
  constructor builds it for \<open>c\<close> input channels and no dimension of the input is empty.
\<close>

theorem DictActor_forward_policy_logits_shape:
  "(actor_built c self \<and> shape x = [b, c, h, w] \<and> 0 < b \<and> 0 < c \<and> 0 < h \<and> 0 < w \<longrightarrow>
      (\<exists>r. DictActor_forward self x sample g = Inr r)) \<and>
   (DictActor_forward self x sample g = Inr ((policy_logits, actions), g') \<and>
    shape x = [b, c, h, w] \<longrightarrow>
      (\<forall>key\<in>fst ` set (actors self). \<exists>n p1 p2 logits cv.
          map_of (n_actions self) key = Some n \<and>
          map_of (action_plane_shapes self) key = Some [p1, p2] \<and>
          map_of policy_logits key = Some logits \<and>
          shape logits = [b, p1, p2, h, w, nat n] \<and>
          length (data logits) = b * p1 * p2 * h * w * nat n \<and>
          (key, cv) \<in> set (actors self) \<and>
          (\<forall>bi<b. \<forall>i1<p1. \<forall>i2<p2. \<forall>i<h. \<forall>j<w. \<forall>a<nat n.
             entry logits [bi, i1, i2, i, j, a] =
             conv_bias cv ! ((a * p1 + i1) * p2 + i2) +
             (\<Sum>ci\<leftarrow>[0..<c].
                 conv_weight cv ! (((a * p1 + i1) * p2 + i2) * c + ci) *
                 entry x [bi, ci, i, j]))))"
proof (intro conjI impI ballI)
  assume "actor_built c self \<and> shape x = [b, c, h, w] \<and> 0 < b \<and> 0 < c \<and> 0 < h \<and> 0 < w"
  then show "\<exists>r. DictActor_forward self x sample g = Inr r"
    using DictActor_forward_returns [of c self x b h w sample g] by auto
next
  fix key
  assume r: "DictActor_forward self x sample g = Inr ((policy_logits, actions), g') \<and>
          shape x = [b, c, h, w]"
    and key: "key \<in> fst ` set (actors self)"
  from DictActor_forward_key [OF conjunct1 [OF r] conjunct2 [OF r] key]
  obtain n p1 p2 logits where
    nk: "map_of (n_actions self) key = Some n" and
    ak: "map_of (action_plane_shapes self) key = Some [p1, p2]" and
    l: "map_of policy_logits key = Some logits" and
    sl: "shape logits = [b, p1, p2, h, w, nat n]"
    by blast
  from DictActor_forward_key_entry [OF conjunct1 [OF r] conjunct2 [OF r] key nk ak l]
  obtain cv where
    "(key, cv) \<in> set (actors self)"
    "length (data logits) = b * p1 * p2 * h * w * nat n"
    "\<forall>bi<b. \<forall>i1<p1. \<forall>i2<p2. \<forall>i<h. \<forall>j<w. \<forall>a<nat n.
             entry logits [bi, i1, i2, i, j, a] =
             conv_bias cv ! ((a * p1 + i1) * p2 + i2) +
             (\<Sum>ci\<leftarrow>[0..<c].
                 conv_weight cv ! (((a * p1 + i1) * p2 + i2) * c + ci) *
                 entry x [bi, ci, i, j])"
    by blast
  with nk ak l sl
  show "\<exists>n p1 p2 logits cv.
          map_of (n_actions self) key = Some n \<and>
          map_of (action_plane_shapes self) key = Some [p1, p2] \<and>
          map_of policy_logits key = Some logits \<and>
          shape logits = [b, p1, p2, h, w, nat n] \<and>
          length (data logits) = b * p1 * p2 * h * w * nat n \<and>
          (key, cv) \<in> set (actors self) \<and>
          (\<forall>bi<b. \<forall>i1<p1. \<forall>i2<p2. \<forall>i<h. \<forall>j<w. \<forall>a<nat n.
             entry logits [bi, i1, i2, i, j, a] =
             conv_bias cv ! ((a * p1 + i1) * p2 + i2) +
             (\<Sum>ci\<leftarrow>[0..<c].
                 conv_weight cv ! (((a * p1 + i1) * p2 + i2) * c + ci) *
                 entry x [bi, ci, i, j]))"
    by blast
qed

theorem DictActor_forward_policy_logits_shape_witness:
  "\<exists>policy_logits actions g' logits.
      DictActor_forward example_actor example_input True zero_generator =
        Inr ((policy_logits, actions), g') \<and>
      map_of policy_logits ''worker'' = Some logits \<and>
      shape logits = [1, 1, 1, 1, 2, 2] \<and> length (data logits) = 4 \<and>
      entry logits [0, 0, 0, 0, 0, 0] = 1 \<and> entry logits [0, 0, 0, 0, 0, 1] = - 1 \<and>
      entry logits [0, 0, 0, 0, 1, 0] = - 1 \<and> entry logits [0, 0, 0, 0, 1, 1] = 1"
proof -
  let ?cv = "\<lparr>conv_in = 1, conv_out = 2, conv_weight = [1, - 1], conv_bias = [0, 0]\<rparr>"
  have sx: "shape example_input = [1, 1, 1, 2]" by (simp add: example_input_def)
  from DictActor_forward_policy_logits_shape
    [of 1 example_actor example_input 1 1 2 True zero_generator, THEN conjunct1]
    example_actor_built sx
  obtain pl ao g' where
    r: "DictActor_forward example_actor example_input True zero_generator = Inr ((pl, ao), g')"
    by (metis less_numeral_extra(1) pos2 prod.exhaust)
  from DictActor_forward_policy_logits_shape
    [of 1 example_actor example_input 1 1 2 True zero_generator pl ao g', THEN conjunct2] r sx
  have "\<exists>n p1 p2 logits cv.
          map_of (n_actions example_actor) ''worker'' = Some n \<and>
          map_of (action_plane_shapes example_actor) ''worker'' = Some [p1, p2] \<and>
          map_of pl ''worker'' = Some logits \<and>
          shape logits = [1, p1, p2, 1, 2, nat n] \<and>
          length (data logits) = 1 * p1 * p2 * 1 * 2 * nat n \<and>
          (''worker'', cv) \<in> set (actors example_actor) \<and>
          (\<forall>bi<1. \<forall>i1<p1. \<forall>i2<p2. \<forall>i<1. \<forall>j<2. \<forall>a<nat n.
             entry logits [bi, i1, i2, i, j, a] =
             conv_bias cv ! ((a * p1 + i1) * p2 + i2) +
             (\<Sum>ci\<leftarrow>[0..<1].
                 conv_weight cv ! (((a * p1 + i1) * p2 + i2) * 1 + ci) *
                 entry example_input [bi, ci, i, j]))"
    by (simp add: example_actor_def)
  then obtain logits where l: "map_of pl ''worker'' = Some logits"
    and sl: "shape logits = [1, 1, 1, 1, 2, 2]" and ll: "length (data logits) = 4"
    and en: "\<forall>bi<1. \<forall>i1<1. \<forall>i2<1. \<forall>i<1. \<forall>j<2. \<forall>a<2.
             entry logits [bi, i1, i2, i, j, a] =
             conv_bias ?cv ! ((a * 1 + i1) * 1 + i2) +
             (\<Sum>ci\<leftarrow>[0..<1].
                 conv_weight ?cv ! (((a * 1 + i1) * 1 + i2) * 1 + ci) *
                 entry example_input [bi, ci, i, j])"
    by (auto simp: example_actor_def)
  have e: "entry logits [0, 0, 0, 0, j, a] =
           conv_bias ?cv ! a + conv_weight ?cv ! a * entry example_input [0, 0, 0, j]"
    if "j < 2" "a < 2" for j a
    using en [rule_format, of 0 0 0 0 j a] that by simp
  have "entry logits [0, 0, 0, 0, 0, 0] = 1" "entry logits [0, 0, 0, 0, 0, 1] = - 1"
    "entry logits [0, 0, 0, 0, 1, 0] = - 1" "entry logits [0, 0, 0, 0, 1, 1] = 1"
    using e [of 0 0] e [of 0 1] e [of 1 0] e [of 1 1]
    by (simp_all add: entry_def example_input_def)
  with r l sl ll show ?thesis by blast
qed

text \<open>
  Claim C5. With \<open>sample\<close> true and false alike, the actions that
  \<open>DictActor.forward\<close> returns for a key have shape \<open>(b, p1, p2, h, w)\<close> and that many
  entries, one per location and action plane, although \<open>logits_to_actions\<close> returns a
  column \<open>(m, 1)\<close> when it samples and a vector \<open>(m)\<close> when it takes the argmax.
\<close>

theorem DictActor_forward_actions_shape:
  "(DictActor_forward self x sample g = Inr ((policy_logits, actions), g') \<and>
    shape x = [b, c, h, w] \<longrightarrow>
      (\<forall>key\<in>fst ` set (actors self). \<exists>p1 p2 a.
          map_of (action_plane_shapes self) key = Some [p1, p2] \<and>
          map_of actions key = Some a \<and>
          shape a = [b, p1, p2, h, w] \<and>
          length (data a) = b * p1 * p2 * h * w)) \<and>
   (logits_to_actions logits sample g = Inr (acts, g'') \<and> shape logits = [m, n] \<longrightarrow>
      shape acts = (if sample then [m, 1] else [m]) \<and> length (data acts) = m)"
proof (intro conjI impI ballI)
  fix key
  assume r: "DictActor_forward self x sample g = Inr ((policy_logits, actions), g') \<and>
          shape x = [b, c, h, w]"
    and key: "key \<in> fst ` set (actors self)"
  from DictActor_forward_key [OF conjunct1 [OF r] conjunct2 [OF r] key]
  obtain p1 p2 a where
    ak: "map_of (action_plane_shapes self) key = Some [p1, p2]" and
    a: "map_of actions key = Some a" and sa: "shape a = [b, p1, p2, h, w]"
    by blast
  from DictActor_forward_key_length [OF conjunct1 [OF r] conjunct2 [OF r] key ak a] ak a sa
  show "\<exists>p1 p2 a.
          map_of (action_plane_shapes self) key = Some [p1, p2] \<and>
          map_of actions key = Some a \<and>
          shape a = [b, p1, p2, h, w] \<and>
          length (data a) = b * p1 * p2 * h * w"
    by blast
next
  assume l: "logits_to_actions logits sample g = Inr (acts, g'') \<and> shape logits = [m, n]"
  from logits_to_actions_range(1) [OF conjunct1 [OF l] conjunct2 [OF l]]
  show "shape acts = (if sample then [m, 1] else [m])" .
  from logits_to_actions_length [OF conjunct1 [OF l] conjunct2 [OF l]]
  show "length (data acts) = m" .
qed

theorem DictActor_forward_actions_shape_witness:
  "(\<exists>policy_logits actions g' a.
      DictActor_forward example_actor example_input True zero_generator =
        Inr ((policy_logits, actions), g') \<and>
      map_of actions ''worker'' = Some a \<and> shape a = [1, 1, 1, 1, 2] \<and> length (data a) = 2) \<and>
   (\<exists>policy_logits actions g' a.
      DictActor_forward example_actor example_input False zero_generator =
        Inr ((policy_logits, actions), g') \<and>
      map_of actions ''worker'' = Some a \<and> shape a = [1, 1, 1, 1, 2] \<and> length (data a) = 2)"
proof -
  have sx: "shape example_input = [1, 1, 1, 2]" by (simp add: example_input_def)
  have "\<exists>policy_logits actions g' a.
      DictActor_forward example_actor example_input sample zero_generator =
        Inr ((policy_logits, actions), g') \<and>
      map_of actions ''worker'' = Some a \<and> shape a = [1, 1, 1, 1, 2] \<and> length (data a) = 2"
    for sample
  proof -
    from example_actor_returns [of sample zero_generator]
    obtain pl ao g' where
      r: "DictActor_forward example_actor example_input sample zero_generator = Inr ((pl, ao), g')"
      by blast
    from DictActor_forward_actions_shape
      [of example_actor example_input sample zero_generator pl ao g' 1 1 1 2, THEN conjunct1] r sx
    have "\<exists>p1 p2 a.
          map_of (action_plane_shapes example_actor) ''worker'' = Some [p1, p2] \<and>
          map_of ao ''worker'' = Some a \<and>
          shape a = [1, p1, p2, 1, 2] \<and> length (data a) = 1 * p1 * p2 * 1 * 2"
      by (simp add: example_actor_def)
    then obtain a where "map_of ao ''worker'' = Some a" "shape a = [1, 1, 1, 1, 2]"
      "length (data a) = 2"
      by (auto simp: example_actor_def)
    with r show ?thesis by blast
  qed
  then show ?thesis by blast
qed

text \<open>
  Claim C7. Every entry of the actions that \<open>DictActor.forward\<close> returns for a key is an
  integer from 0 to \<open>n_actions[key] - 1\<close>, whether the actions were sampled or taken
  by argmax.
\<close>

theorem DictActor_forward_actions_range:
  "DictActor_forward self x sample g = Inr ((policy_logits, actions), g') \<longrightarrow>
     (\<forall>key\<in>fst ` set (actors self). \<exists>n a.
         map_of (n_actions self) key = Some n \<and> map_of actions key = Some a \<and> 0 < n \<and>
         (\<forall>v\<in>set (data a). 0 \<le> v \<and> v \<le> n - 1))"
proof (intro impI ballI)
  fix key
  assume r: "DictActor_forward self x sample g = Inr ((policy_logits, actions), g')"
    and key: "key \<in> fst ` set (actors self)"
  from DictActor_forward_input_shape [OF r] obtain b c h w where sx: "shape x = [b, c, h, w]"
    by blast
  from DictActor_forward_key [OF r sx key] obtain n a where
    "map_of (n_actions self) key = Some n" "map_of actions key = Some a" "0 < n"
    "\<forall>v\<in>set (data a). 0 \<le> v \<and> v < n"
    by blast
  then show "\<exists>n a.
         map_of (n_actions self) key = Some n \<and> map_of actions key = Some a \<and> 0 < n \<and>
         (\<forall>v\<in>set (data a). 0 \<le> v \<and> v \<le> n - 1)"
    by fastforce
qed

theorem DictActor_forward_actions_range_witness:
  "(\<exists>policy_logits actions g' a.
      DictActor_forward example_actor example_input True zero_generator =
        Inr ((policy_logits, actions), g') \<and>
      map_of actions ''worker'' = Some a \<and> (\<forall>v\<in>set (data a). 0 \<le> v \<and> v \<le> 1)) \<and>
   (\<exists>policy_logits actions g'.
      DictActor_forward example_actor example_input False zero_generator =
        Inr ((policy_logits, actions), g') \<and>
      map_of actions ''worker'' = Some \<lparr>shape = [1, 1, 1, 1, 2], data = [0, 1]\<rparr>)"
proof -
  have sx: "shape example_input = [1, 1, 1, 2]" by (simp add: example_input_def)
  from example_actor_returns [of True zero_generator]
  obtain pl ao g' where
    r: "DictActor_forward example_actor example_input True zero_generator = Inr ((pl, ao), g')"
    by blast
  from DictActor_forward_actions_range
    [of example_actor example_input True zero_generator pl ao g'] r
  have "\<exists>n a. map_of (n_actions example_actor) ''worker'' = Some n \<and>
          map_of ao ''worker'' = Some a \<and> 0 < n \<and>
         (\<forall>v\<in>set (data a). 0 \<le> v \<and> v \<le> n - 1)"
    by (simp add: example_actor_def)
  then obtain a where a: "map_of ao ''worker'' = Some a"
    and "\<forall>v\<in>set (data a). 0 \<le> v \<and> v \<le> (2::int) - 1"
    unfolding example_actor_def by force
  then have "\<forall>v\<in>set (data a). 0 \<le> v \<and> v \<le> 1" by simp
  with r a have "\<exists>policy_logits actions g' a.
      DictActor_forward example_actor example_input True zero_generator =
        Inr ((policy_logits, actions), g') \<and>
      map_of actions ''worker'' = Some a \<and> (\<forall>v\<in>set (data a). 0 \<le> v \<and> v \<le> 1)"
    by blast
  moreover have "\<exists>policy_logits actions g'.
      DictActor_forward example_actor example_input False zero_generator =
        Inr ((policy_logits, actions), g') \<and>
      map_of actions ''worker'' = Some \<lparr>shape = [1, 1, 1, 1, 2], data = [0, 1]\<rparr>"
    by (simp add: ex_run)
  ultimately show ?thesis by blast
qed

section \<open>The heads of the network\<close>

lemma Sequential_forward_append:
  "Sequential_forward (xs @ ys) x =
   (case Sequential_forward xs x of Inl e \<Rightarrow> Inl e | Inr y \<Rightarrow> Sequential_forward ys y)"
  by (induction xs arbitrary: x) (auto split: sum.splits)

lemma ReLU_shape_preserving: "shape_preserving ReLU"
  by (simp add: shape_preserving_def ReLU_def)

lemma Conv2d_new_channels:
  "Conv2d_new c (int c') g = Inr (cv, g') \<Longrightarrow> conv_in cv = c \<and> conv_out cv = c'"
  by (auto simp: Conv2d_new_def uniform_list_def split: if_splits)

lemma Conv2d_new_returns: "\<exists>cv g'. Conv2d_new c (int c') g = Inr (cv, g')"
  by (simp add: Conv2d_new_def uniform_list_def)

lemma conv_stack_snoc: "conv_stack act (cvs @ [cv]) = conv_stack act cvs @ [Conv2d cv, act]"
  by (simp add: conv_stack_def)

lemma head_layers_result:
  "head_layers k c act (conv_stack act ca, conv_stack act cb) g = Inr ((al, bl), g') \<Longrightarrow>
   list_all (\<lambda>cv. conv_in cv = c \<and> conv_out cv = c) ca \<Longrightarrow>
   list_all (\<lambda>cv. conv_in cv = c \<and> conv_out cv = c) cb \<Longrightarrow>
   \<exists>ca' cb'. al = conv_stack act ca' \<and> bl = conv_stack act cb' \<and>
     length ca' = length ca + k \<and> length cb' = length cb + k \<and>
     list_all (\<lambda>cv. conv_in cv = c \<and> conv_out cv = c) ca' \<and>
     list_all (\<lambda>cv. conv_in cv = c \<and> conv_out cv = c) cb'"
proof (induction k arbitrary: ca cb g)
  case 0
  then show ?case by auto
next
  case (Suc k)
  from Suc.prems(1) obtain cva g1 cvb g2 where
    a: "Conv2d_new c (int c) g = Inr (cva, g1)" and b: "Conv2d_new c (int c) g1 = Inr (cvb, g2)"
    and rest: "head_layers k c act (conv_stack act (ca @ [cva]), conv_stack act (cb @ [cvb])) g2
               = Inr ((al, bl), g')"
    by (auto simp: conv_stack_snoc split: sum.splits prod.splits)
  from Suc.IH [OF rest] Suc.prems(2,3) Conv2d_new_channels [OF a] Conv2d_new_channels [OF b]
  show ?case by auto
qed

lemma head_layers_returns: "\<exists>r g'. head_layers k c act acc g = Inr (r, g')"
proof (induction k arbitrary: acc g)
  case 0
  show ?case by (cases acc) simp
next
  case (Suc k)
  obtain al bl where acc: "acc = (al, bl)" by (cases acc)
  obtain cva g1 where a: "Conv2d_new c (int c) g = Inr (cva, g1)"
    using Conv2d_new_returns by blast
  obtain cvb g2 where b: "Conv2d_new c (int c) g1 = Inr (cvb, g2)"
    using Conv2d_new_returns by blast
  from Suc.IH [of "(al @ [Conv2d cva, act], bl @ [Conv2d cvb, act])" g2] acc a b
  show ?case by simp
qed

lemma conv_stack_forward:
  assumes "shape_preserving act" "list_all (\<lambda>cv. conv_in cv = c \<and> conv_out cv = c) cvs"
    "shape x = [b, c, h, w]" and pos: "0 < c" "0 < h" "0 < w"
  shows "\<exists>y. Sequential_forward (conv_stack act cvs) x = Inr y \<and> shape y = [b, c, h, w]"
  using assms(2,3)
proof (induction cvs arbitrary: x)
  case Nil
  then show ?case by (simp add: conv_stack_def)
next
  case (Cons cv cvs)
  from Cons.prems pos obtain y1 where y1: "Conv2d_forward cv x = Inr y1" "shape y1 = [b, c, h, w]"
    by (simp add: Conv2d_forward_def)
  from assms(1) obtain y2 where y2: "layer_forward act y1 = Inr y2" "shape y2 = shape y1"
    unfolding shape_preserving_def by blast
  from Cons.IH [of y2] Cons.prems(1) y1 y2 obtain y where
    "Sequential_forward (conv_stack act cvs) y2 = Inr y" "shape y = [b, c, h, w]" by auto
  with y1 y2 show ?case by (simp add: conv_stack_def)
qed

lemma conv_stack_forward_shape:
  assumes "shape_preserving act" "Sequential_forward (conv_stack act cvs) x = Inr y"
    "shape x = [b, c, h, w]"
  shows "\<exists>c'. shape y = [b, c', h, w]"
  using assms(2,3)
proof (induction cvs arbitrary: x c)
  case Nil
  then show ?case by (simp add: conv_stack_def)
next
  case (Cons cv cvs)
  from Cons.prems obtain y1 y2 where y1: "Conv2d_forward cv x = Inr y1"
    and y2: "layer_forward act y1 = Inr y2"
    and rest: "Sequential_forward (conv_stack act cvs) y2 = Inr y"
    by (auto simp: conv_stack_def split: sum.splits)
  from Conv2d_forward_shape(1) [OF y1 Cons.prems(2)] have "shape y1 = [b, conv_out cv, h, w]" .
  moreover from assms(1) y2 have "shape y2 = shape y1"
    unfolding shape_preserving_def by (metis sum.inject(2))
  ultimately have "shape y2 = [b, conv_out cv, h, w]" by simp
  from Cons.IH [OF rest this] show ?case .
qed

lemma Linear_new_features: "Linear_new fin fout g = (lin, g') \<Longrightarrow> lin_in lin = fin \<and> lin_out lin = fout"
  by (auto simp: Linear_new_def uniform_list_def)

lemma length_rows_matrix: "shape x = [m, n] \<Longrightarrow> length (rows x) = m"
  by (simp add: rows_def)

lemma Linear_forward_matrix:
  assumes "shape x = [m, lin_in l]"
  shows "\<exists>z. Linear_forward l x = Inr z \<and> shape z = [m, lin_out l] \<and>
             length (data z) = m * lin_out l"
proof -
  have "length (concat (map (\<lambda>row. map (\<lambda>k. lin_bias l ! k +
            (\<Sum>i\<leftarrow>[0..<lin_in l]. lin_weight l ! (k * lin_in l + i) * row ! i))
            [0..<lin_out l]) (rows x))) = m * lin_out l"
    using length_rows_matrix [OF assms]
    by (simp add: length_concat comp_def sum_list_triv)
  with assms show ?thesis by (simp add: Linear_forward_def)
qed

lemma Linear_forward_shape:
  assumes "Linear_forward l x = Inr z" "shape x = [m, k]"
  shows "shape z = [m, lin_out l]" "k = lin_in l"
  using assms by (auto simp: Linear_forward_def split: if_splits)

lemma ValueActivation_forward_shape:
  "ValueActivation_forward axis x = Inr y \<Longrightarrow>
   shape y = shape x \<and> length (data y) = prod_list (shape x)"
  by (auto simp: ValueActivation_forward_def softmax_def length_indices split: sum.splits)

lemma ValueActivation_forward_matrix:
  assumes "shape x = [m, n]"
  shows "\<exists>y. ValueActivation_forward (- 1) x = Inr y"
  using softmax_matrix [OF assms] by (simp add: ValueActivation_forward_def)

lemma baseline_tail_shape:
  assumes "Sequential_forward [AdaptiveAvgPool2d, Flatten, Linear lin, final] x = Inr y"
    and "shape x = [b, c, h, w]"
  shows "\<exists>z. shape z = [b, lin_out lin] \<and> layer_forward final z = Inr y \<and>
             c = lin_in lin \<and> 0 < c \<and> 0 < h \<and> 0 < w"
proof -
  from assms obtain y1 y2 z where
    p: "AdaptiveAvgPool2d_forward x = Inr y1" and f: "Flatten_forward y1 = Inr y2" and
    l: "Linear_forward lin y2 = Inr z" and v: "layer_forward final z = Inr y"
    by (auto split: sum.splits)
  from p assms(2) have s1: "shape y1 = [b, c, 1, 1]" and pos: "0 < c \<and> 0 < h \<and> 0 < w"
    by (auto simp: AdaptiveAvgPool2d_forward_def split: if_splits)
  from f s1 have s2: "shape y2 = [b, c]" by (auto simp: Flatten_forward_def)
  from Linear_forward_shape [OF l s2] v pos show ?thesis by blast
qed

lemma baseline_tail_returns:
  assumes "shape x = [b, c, h, w]" "0 < c" "0 < h" "0 < w" "lin_in lin = c"
  shows "\<exists>y. Sequential_forward [AdaptiveAvgPool2d, Flatten, Linear lin, ValueActivation (- 1)] x
              = Inr y"
proof -
  from assms obtain y1 where p: "AdaptiveAvgPool2d_forward x = Inr y1" "shape y1 = [b, c, 1, 1]"
    by (simp add: AdaptiveAvgPool2d_forward_def)
  then obtain y2 where f: "Flatten_forward y1 = Inr y2" "shape y2 = [b, c]"
    by (simp add: Flatten_forward_def)
  from Linear_forward_matrix [of y2 b lin] f assms(5) obtain z where
    l: "Linear_forward lin y2 = Inr z" "shape z = [b, lin_out lin]" by auto
  from ValueActivation_forward_matrix [OF l(2)] obtain y where
    "ValueActivation_forward (- 1) z = Inr y" by blast
  with p f l show ?thesis by simp
qed

lemma BasicActorCriticNetwork_init_result:
  assumes "BasicActorCriticNetwork_init di bm c spaces act n final g0 = Inr (network, g1)"
  shows "\<exists>ca cb lin da g g'.
           dict_input_layer network = di \<and> base_model network = bm \<and>
           base_out_channels network = c \<and>
           actor_base network = conv_stack act ca \<and>
           baseline network = conv_stack act cb @ [AdaptiveAvgPool2d, Flatten, Linear lin, final] \<and>
           length ca = nat (n - 1) \<and> length cb = nat (n - 1) \<and>
           list_all (\<lambda>cv. conv_in cv = c \<and> conv_out cv = c) ca \<and>
           list_all (\<lambda>cv. conv_in cv = c \<and> conv_out cv = c) cb \<and>
           lin_in lin = c \<and> lin_out lin = 2 \<and>
           actor network = da \<and> DictActor_init c spaces g = Inr (da, g')"
proof -
  from assms obtain al bl g da g' lin where
    h: "head_layers (nat (n - 1)) c act ([], []) g0 = Inr ((al, bl), g)" and
    d: "DictActor_init c spaces g = Inr (da, g')" and
    l: "Linear_new c 2 g' = (lin, g1)" and
    nw: "network = \<lparr>dict_input_layer = di, base_model = bm, base_out_channels = c,
                    actor_base = al, actor = da,
                    baseline = bl @ [AdaptiveAvgPool2d, Flatten, Linear lin, final]\<rparr>"
    by (auto simp: BasicActorCriticNetwork_init_def split: sum.splits prod.splits)
  from h have "head_layers (nat (n - 1)) c act (conv_stack act [], conv_stack act []) g0
               = Inr ((al, bl), g)" by (simp add: conv_stack_def)
  from head_layers_result [OF this] obtain ca cb where
    "al = conv_stack act ca" "bl = conv_stack act cb"
    "length ca = nat (n - 1)" "length cb = nat (n - 1)"
    "list_all (\<lambda>cv. conv_in cv = c \<and> conv_out cv = c) ca"
    "list_all (\<lambda>cv. conv_in cv = c \<and> conv_out cv = c) cb"
    by auto
  with Linear_new_features [OF l] d nw show ?thesis by auto
qed

lemma BasicActorCriticNetwork_init_returns:
  assumes "gym_dict spaces"
    "list_all (\<lambda>(key, sp). \<not> invalid_entry sp \<and> \<not> empty_nvec sp) spaces"
  shows "\<exists>network g1. BasicActorCriticNetwork_init di bm c spaces act n final g0 = Inr (network, g1)"
proof -
  obtain al bl g where h: "head_layers (nat (n - 1)) c act ([], []) g0 = Inr ((al, bl), g)"
    using head_layers_returns [of "nat (n - 1)" c act "([], [])" g0] by auto
  from assms have "list_all (\<lambda>(key, sp). gym_space sp \<and> \<not> invalid_entry sp \<and> \<not> empty_nvec sp) spaces"
    by (auto simp: gym_dict_def list_all_iff)
  from DictActor_init_returns [OF this, of c g] obtain da g' where
    d: "DictActor_init c spaces g = Inr (da, g')" by blast
  obtain lin g1 where "Linear_new c 2 g' = (lin, g1)" by (cases "Linear_new c 2 g'")
  with h d show ?thesis by (simp add: BasicActorCriticNetwork_init_def)
qed

lemma example_network_eq:
  "example_network final = Inr (example_net final, \<lparr>variates = (\<lambda>i. 0), position = 12\<rparr>)"
  by (simp add: example_network_def example_net_def BasicActorCriticNetwork_init_def
      DictActor_init_def
      example_spaces_def zero_generator_def Conv2d_new_def uniform_list_def Linear_new_def
      same_n_actions_def nvec_min_def nvec_max_def np_min_def np_max_def action_plane_shape_def
      Let_def two numeral_2_eq_2)

lemmas eval_defs =
  forward_def example_net_def example_input_layer_def example_base_model_def example_input_def
  ReLU_def DictActor_forward_def actor_forward_def
  Conv2d_forward_def AdaptiveAvgPool2d_forward_def Flatten_forward_def Linear_forward_def
  ValueActivation_forward_def softmax_def normalize_dim_def
  view_def permute_def contiguous_def logits_to_actions_def argmax_def multinomial_def
  argmax_row_def sample_row_def uniform_def rows_def indices_def entry_def numel_def
  two six Let_def

lemma example_best:
  "forward \<lparr>net = example_net (ValueActivation (- 1)), rng = g\<rparr> example_input False =
   Inr (\<lparr>out_actions = [(''worker'', \<lparr>shape = [1, 1, 1, 1, 2], data = [0, 0]\<rparr>)],
         out_policy_logits = [(''worker'', \<lparr>shape = [1, 1, 1, 1, 2, 2], data = [0, 0, 0, 0]\<rparr>)],
         out_baseline = \<lparr>shape = [1, 2], data = [0, 0]\<rparr>\<rparr>,
        \<lparr>net = example_net (ValueActivation (- 1)), rng = g\<rparr>)"
  by (simp add: eval_defs)

lemma example_batch_axis:
  "forward \<lparr>net = example_net (ValueActivation 0), rng = g\<rparr> example_input False =
   Inr (\<lparr>out_actions = [(''worker'', \<lparr>shape = [1, 1, 1, 1, 2], data = [0, 0]\<rparr>)],
         out_policy_logits = [(''worker'', \<lparr>shape = [1, 1, 1, 1, 2, 2], data = [0, 0, 0, 0]\<rparr>)],
         out_baseline = \<lparr>shape = [1, 2], data = [1, 1]\<rparr>\<rparr>,
        \<lparr>net = example_net (ValueActivation 0), rng = g\<rparr>)"
  by (simp add: eval_defs)

lemma example_sampled:
  "forward \<lparr>net = example_net (ValueActivation (- 1)), rng = constant_generator u\<rparr>
     example_input True =
   Inr (\<lparr>out_actions = [(''worker'', \<lparr>shape = [1, 1, 1, 1, 2],
                           data = (if u < 1 / 2 then [0, 0] else [1, 1])\<rparr>)],
         out_policy_logits = [(''worker'', \<lparr>shape = [1, 1, 1, 1, 2, 2], data = [0, 0, 0, 0]\<rparr>)],
         out_baseline = \<lparr>shape = [1, 2], data = [0, 0]\<rparr>\<rparr>,
        \<lparr>net = example_net (ValueActivation (- 1)),
         rng = \<lparr>variates = (\<lambda>i. u), position = 2\<rparr>\<rparr>)"
  by (simp add: eval_defs constant_generator_def)

lemma forward_iff:
  assumes "dict_input_layer (net s) x = Inr (obs, input_mask)"
    and "base_model (net s) (obs, input_mask) = Inr (base_out, aux)"
  shows "forward s x sample = Inr (out, s') \<longleftrightarrow>
         (\<exists>hidden g'.
            Sequential_forward (actor_base (net s)) base_out = Inr hidden \<and>
            DictActor_forward (actor (net s)) hidden sample (rng s) =
              Inr ((out_policy_logits out, out_actions out), g') \<and>
            Sequential_forward (baseline (net s)) base_out = Inr (out_baseline out) \<and>
            s' = s\<lparr>rng := g'\<rparr>)"
  using assms
  by (cases out) (auto simp: forward_def split: sum.splits prod.splits)

lemma forward_trunk:
  assumes "forward s x sample = Inr (out, s')"
  shows "\<exists>obs input_mask base_out aux.
           dict_input_layer (net s) x = Inr (obs, input_mask) \<and>
           base_model (net s) (obs, input_mask) = Inr (base_out, aux)"
  using assms by (auto simp: forward_def split: sum.splits prod.splits)

lemma pool_input_shape:
  "AdaptiveAvgPool2d_forward x = Inr y \<Longrightarrow> \<exists>b c h w. shape x = [b, c, h, w]"
  by (auto simp: AdaptiveAvgPool2d_forward_def split: list.splits)

lemma baseline_head_result:
  assumes "Sequential_forward (cs @ [AdaptiveAvgPool2d, Flatten, Linear lin, final]) x = Inr y"
  shows "\<exists>x1 b c h w z. Sequential_forward cs x = Inr x1 \<and> shape x1 = [b, c, h, w] \<and>
           shape z = [b, lin_out lin] \<and> layer_forward final z = Inr y"
proof -
  from assms obtain x1 where x1: "Sequential_forward cs x = Inr x1" and
    t: "Sequential_forward [AdaptiveAvgPool2d, Flatten, Linear lin, final] x1 = Inr y"
    by (auto simp: Sequential_forward_append split: sum.splits)
  from t obtain y1 where "AdaptiveAvgPool2d_forward x1 = Inr y1" by (auto split: sum.splits)
  from pool_input_shape [OF this] obtain b c h w where s: "shape x1 = [b, c, h, w]" by blast
  from baseline_tail_shape [OF t s] x1 s show ?thesis by blast
qed

lemma forward_returns:
  assumes init: "BasicActorCriticNetwork_init di bm c spaces act n (ValueActivation (- 1)) g0
                 = Inr (network, g1)"
    and act: "shape_preserving act" and gym: "gym_dict spaces" and s: "net s = network"
    and di: "di x = Inr (obs, input_mask)" and bm: "bm (obs, input_mask) = Inr (base_out, aux)"
    and sb: "shape base_out = [b, c, h, w]" and pos: "0 < c" "0 < h" "0 < w"
  shows "\<exists>out s'. forward s x sample = Inr (out, s')"
proof -
  from BasicActorCriticNetwork_init_result [OF init] obtain ca cb lin g g' where
    nw: "dict_input_layer network = di" "base_model network = bm"
      "actor_base network = conv_stack act ca"
      "baseline network = conv_stack act cb @
         [AdaptiveAvgPool2d, Flatten, Linear lin, ValueActivation (- 1)]" and
    cs: "list_all (\<lambda>cv. conv_in cv = c \<and> conv_out cv = c) ca"
        "list_all (\<lambda>cv. conv_in cv = c \<and> conv_out cv = c) cb" and
    lin: "lin_in lin = c" and da: "DictActor_init c spaces g = Inr (actor network, g')"
    by blast
  from conv_stack_forward [OF act cs(1) sb pos] obtain hidden where
    h: "Sequential_forward (conv_stack act ca) base_out = Inr hidden" "shape hidden = [b, c, h, w]"
    by blast
  from DictActor_forward_returns [OF DictActor_init_built [OF da gym] h(2) pos, of sample "rng s"]
  obtain pl ao g2 where
    d: "DictActor_forward (actor network) hidden sample (rng s) = Inr ((pl, ao), g2)" by blast
  from conv_stack_forward [OF act cs(2) sb pos] obtain x1 where
    x1: "Sequential_forward (conv_stack act cb) base_out = Inr x1" "shape x1 = [b, c, h, w]"
    by blast
  from baseline_tail_returns [OF x1(2) pos lin] obtain y where
    "Sequential_forward [AdaptiveAvgPool2d, Flatten, Linear lin, ValueActivation (- 1)] x1 = Inr y"
    by blast
  with x1 have bl: "Sequential_forward (baseline network) base_out = Inr y"
    by (simp add: nw Sequential_forward_append)
  have "forward s x sample =
        Inr (\<lparr>out_actions = ao, out_policy_logits = pl, out_baseline = y\<rparr>, s\<lparr>rng := g2\<rparr>)"
    using di bm h d bl by (simp add: forward_def s nw)
  then show ?thesis by blast
qed

lemma actor_forward_best:
  "actor_forward self x False b h w key cv g =
   (case actor_forward self x False b h w key cv g0 of
      Inl e \<Rightarrow> Inl e
    | Inr (r, g2) \<Rightarrow> Inr (r, g))"
  by (auto simp: actor_forward_def logits_to_actions_def split: option.splits sum.splits)

lemma actors_loop_best:
  "actors_loop self x False b h w cvs acc g =
   (case actors_loop self x False b h w cvs acc g0 of
      Inl e \<Rightarrow> Inl e
    | Inr (r, g2) \<Rightarrow> Inr (r, g))"
proof (induction cvs arbitrary: acc g g0)
  case Nil
  show ?case by simp
next
  case (Cons kc cvs)
  obtain key cv where kc: "kc = (key, cv)" by (cases kc)
  obtain pl ao where acc: "acc = (pl, ao)" by (cases acc)
  show ?case
  proof (cases "actor_forward self x False b h w key cv g0")
    case (Inl e)
    with actor_forward_best [of self x b h w key cv g g0] kc acc show ?thesis by simp
  next
    case (Inr rg)
    obtain l a g2 where rg: "rg = ((l, a), g2)" by (cases rg) auto
    from actor_forward_best [of self x b h w key cv g g0] Inr rg
    have 1: "actor_forward self x False b h w key cv g = Inr ((l, a), g)" by simp
    from actor_forward_best [of self x b h w key cv g0 g0] Inr rg
    have 2: "g2 = g0" by simp
    from Cons.IH [of "(AList.update key l pl, AList.update key a ao)" g g0] kc acc 1 2 Inr rg
    show ?thesis by simp
  qed
qed

lemma DictActor_forward_best:
  "DictActor_forward self x False g =
   (case DictActor_forward self x False g0 of
      Inl e \<Rightarrow> Inl e
    | Inr (r, g2) \<Rightarrow> Inr (r, g))"
  using actors_loop_best [of self x _ _ _ "actors self" "([], [])" g g0]
  by (auto simp: DictActor_forward_def split: list.splits)

lemma example_input_shape: "shape example_input = [1, 1, 1, 2]"
  by (simp add: example_input_def)

lemma example_gym_dict: "gym_dict example_spaces"
  by (simp add: gym_dict_def example_spaces_def)


lemma baseline_value_source:
  assumes init: "BasicActorCriticNetwork_init di bm c spaces act n final g0 = Inr (network, g1)"
    and s: "net s = network"
    and run: "forward s x sample = Inr (out, s')"
  shows "\<exists>obs input_mask base_out aux cb x1 b' c' h' w' z.
           di x = Inr (obs, input_mask) \<and> bm (obs, input_mask) = Inr (base_out, aux) \<and>
           Sequential_forward (conv_stack act cb) base_out = Inr x1 \<and>
           shape x1 = [b', c', h', w'] \<and> shape z = [b', 2] \<and>
           layer_forward final z = Inr (out_baseline out)"
proof -
  from BasicActorCriticNetwork_init_result [OF init] obtain cb lin where
    nw: "dict_input_layer network = di" "base_model network = bm"
      "baseline network = conv_stack act cb @ [AdaptiveAvgPool2d, Flatten, Linear lin, final]"
      "lin_out lin = 2"
    by blast
  from forward_trunk [OF run] s nw obtain obs input_mask base_out aux where
    t: "di x = Inr (obs, input_mask)" "bm (obs, input_mask) = Inr (base_out, aux)"
    by auto
  from t s nw have "dict_input_layer (net s) x = Inr (obs, input_mask)"
    "base_model (net s) (obs, input_mask) = Inr (base_out, aux)" by simp_all
  from forward_iff [OF this, THEN iffD1, OF run] s nw
  have "Sequential_forward (conv_stack act cb @ [AdaptiveAvgPool2d, Flatten, Linear lin, final])
          base_out = Inr (out_baseline out)" by auto
  from baseline_head_result [OF this] nw(4) t show ?thesis by metis
qed


lemma forward_best:
  "forward (s\<lparr>rng := g\<rparr>) x False =
   (case forward (s\<lparr>rng := g0\<rparr>) x False of
      Inl e \<Rightarrow> Inl e
    | Inr (out, s') \<Rightarrow> Inr (out, s\<lparr>rng := g\<rparr>))"
proof -
  have d: "DictActor_forward self h False g =
     (case DictActor_forward self h False g0 of Inl e \<Rightarrow> Inl e | Inr (r, g2) \<Rightarrow> Inr (r, g))"
    for self h
    by (rule DictActor_forward_best)
  show ?thesis
    unfolding forward_def
    by (simp add: d [of "actor (net s)"] split: sum.splits prod.splits)
qed


lemma indices_bounds:
  assumes "idx \<in> set (indices s)"
  shows "length idx = length s" and "\<And>k. k < length s \<Longrightarrow> idx ! k < s ! k"
proof -
  from assms have l: "list_all2 (\<lambda>i ys. i \<in> set ys) idx (map (\<lambda>d. [0..<d]) s)"
    by (simp add: indices_def product_lists_set)
  then show "length idx = length s" by (auto dest: list_all2_lengthD)
  fix k assume "k < length s"
  with l show "idx ! k < s ! k" by (auto simp: list_all2_conv_all_nth)
qed

lemma member_le_sum_list_real:
  "(\<And>v. v \<in> set xs \<Longrightarrow> 0 \<le> v) \<Longrightarrow> u \<in> set xs \<Longrightarrow> u \<le> sum_list (xs :: real list)"
proof (induction xs)
  case Nil
  then show ?case by simp
next
  case (Cons a xs)
  have nn: "0 \<le> sum_list xs" using Cons.prems(1) by (intro sum_list_nonneg) simp
  show ?case
  proof (cases "u = a")
    case True
    with nn show ?thesis by simp
  next
    case False
    with Cons.prems have "u \<in> set xs" by simp
    with Cons.IH Cons.prems(1) have "u \<le> sum_list xs" by simp
    moreover have "0 \<le> a" using Cons.prems(1) by simp
    ultimately show ?thesis by simp
  qed
qed

lemma softmax_entry_bounds:
  fixes x :: "real tensor"
  assumes idx: "idx \<in> set (indices (shape x))" and d: "d < length (shape x)"
  shows "0 \<le> exp (entry x idx) / (\<Sum>j\<leftarrow>[0..<shape x ! d]. exp (entry x (idx[d := j])))"
    and "exp (entry x idx) / (\<Sum>j\<leftarrow>[0..<shape x ! d]. exp (entry x (idx[d := j]))) \<le> 1"
proof -
  let ?xs = "map (\<lambda>j. exp (entry x (idx[d := j]))) [0..<shape x ! d]"
  from indices_bounds [OF idx] d have k: "idx ! d < shape x ! d" by simp
  have "idx[d := idx ! d] = idx" by simp
  with k have mem: "exp (entry x idx) \<in> set ?xs" by force
  have "exp (entry x idx) \<le> sum_list ?xs"
  proof (rule member_le_sum_list_real)
    show "exp (entry x idx) \<in> set ?xs" by (rule mem)
    show "0 \<le> v" if "v \<in> set ?xs" for v using that by auto
  qed
  moreover have pos: "0 < exp (entry x idx)" by simp
  ultimately have sp: "0 < sum_list ?xs" by linarith
  with pos show "0 \<le> exp (entry x idx) / sum_list ?xs" by simp
  from \<open>exp (entry x idx) \<le> sum_list ?xs\<close> sp show "exp (entry x idx) / sum_list ?xs \<le> 1"
    by simp
qed

lemma ValueActivation_forward_bounds:
  assumes "ValueActivation_forward axis x = Inr y"
  shows "\<exists>p. softmax x axis = Inr p \<and> shape y = shape p \<and>
             data y = map (\<lambda>v. 2 * v - 1) (data p)"
    and "\<forall>v\<in>set (data y). - 1 \<le> v \<and> v \<le> 1"
proof -
  from assms obtain p where p: "softmax x axis = Inr p"
    and y: "y = p\<lparr>data := map (\<lambda>v. 2 * v - 1) (data p)\<rparr>"
    by (auto simp: ValueActivation_forward_def split: sum.splits)
  then show "\<exists>p. softmax x axis = Inr p \<and> shape y = shape p \<and>
             data y = map (\<lambda>v. 2 * v - 1) (data p)" by simp
  from p obtain d where d: "normalize_dim axis (length (shape x)) = Inr d"
    and dp: "data p = map (\<lambda>idx. exp (entry x idx) /
                             (\<Sum>j\<leftarrow>[0..<shape x ! d]. exp (entry x (idx[d := j]))))
                     (indices (shape x))"
    by (auto simp: softmax_def split: sum.splits)
  from d have dl: "d < length (shape x)"
    by (auto simp: normalize_dim_def split: if_splits)
  show "\<forall>v\<in>set (data y). - 1 \<le> v \<and> v \<le> 1"
  proof
    fix v assume "v \<in> set (data y)"
    with y dp obtain idx where idx: "idx \<in> set (indices (shape x))" and
      v: "v = 2 * (exp (entry x idx) /
                   (\<Sum>j\<leftarrow>[0..<shape x ! d]. exp (entry x (idx[d := j])))) - 1"
      by auto
    from softmax_entry_bounds [OF idx dl] v show "- 1 \<le> v \<and> v \<le> 1" by simp
  qed
qed

section \<open>What a call leaves unchanged\<close>



























section \<open>What the network returns\<close>

text \<open>
  Claim C3. Both heads consume the same trunk output. With \<open>base_out\<close> the output of the
  base model on the unpacked input, \<open>forward\<close> returns exactly when the actor's layers,
  the DictActor on their result and the baseline's layers on the same \<open>base_out\<close> all
  return, and its policy logits, actions and baseline are theirs. The constructor makes
  the actor's layers the convolution and activation pairs, and the baseline's layers
  such pairs followed by the adaptive average pool, the flatten, a linear layer with 2
  outputs and the final activation.
\<close>

theorem forward_shares_trunk:
  "(dict_input_layer (net s) x = Inr (obs, input_mask) \<and>
    base_model (net s) (obs, input_mask) = Inr (base_out, aux) \<longrightarrow>
      (forward s x sample = Inr (out, s') \<longleftrightarrow>
         (\<exists>hidden g'.
            Sequential_forward (actor_base (net s)) base_out = Inr hidden \<and>
            DictActor_forward (actor (net s)) hidden sample (rng s) =
              Inr ((out_policy_logits out, out_actions out), g') \<and>
            Sequential_forward (baseline (net s)) base_out = Inr (out_baseline out) \<and>
            s' = s\<lparr>rng := g'\<rparr>))) \<and>
   (BasicActorCriticNetwork_init di bm c spaces act n final g0 = Inr (network, g1) \<longrightarrow>
      (\<exists>ca cb lin g g'.
         actor_base network = conv_stack act ca \<and>
         baseline network = conv_stack act cb @ [AdaptiveAvgPool2d, Flatten, Linear lin, final] \<and>
         length ca = nat (n - 1) \<and> length cb = nat (n - 1) \<and>
         lin_in lin = c \<and> lin_out lin = 2 \<and>
         DictActor_init c spaces g = Inr (actor network, g')))"
proof (intro conjI impI)
  assume a: "dict_input_layer (net s) x = Inr (obs, input_mask) \<and>
    base_model (net s) (obs, input_mask) = Inr (base_out, aux)"
  show "forward s x sample = Inr (out, s') \<longleftrightarrow>
         (\<exists>hidden g'.
            Sequential_forward (actor_base (net s)) base_out = Inr hidden \<and>
            DictActor_forward (actor (net s)) hidden sample (rng s) =
              Inr ((out_policy_logits out, out_actions out), g') \<and>
            Sequential_forward (baseline (net s)) base_out = Inr (out_baseline out) \<and>
            s' = s\<lparr>rng := g'\<rparr>)"
    by (rule forward_iff [OF conjunct1 [OF a] conjunct2 [OF a]])
next
  assume "BasicActorCriticNetwork_init di bm c spaces act n final g0 = Inr (network, g1)"
  from BasicActorCriticNetwork_init_result [OF this]
  show "\<exists>ca cb lin g g'.
         actor_base network = conv_stack act ca \<and>
         baseline network = conv_stack act cb @ [AdaptiveAvgPool2d, Flatten, Linear lin, final] \<and>
         length ca = nat (n - 1) \<and> length cb = nat (n - 1) \<and>
         lin_in lin = c \<and> lin_out lin = 2 \<and>
         DictActor_init c spaces g = Inr (actor network, g')"
    by blast
qed

theorem forward_shares_trunk_witness:
  "(\<exists>hidden g'.
      Sequential_forward (actor_base (example_net (ValueActivation (- 1)))) example_input
        = Inr hidden \<and>
      DictActor_forward (actor (example_net (ValueActivation (- 1)))) hidden False zero_generator =
        Inr (([(''worker'', \<lparr>shape = [1, 1, 1, 1, 2, 2], data = [0, 0, 0, 0]\<rparr>)],
              [(''worker'', \<lparr>shape = [1, 1, 1, 1, 2], data = [0, 0]\<rparr>)]), g') \<and>
      Sequential_forward (baseline (example_net (ValueActivation (- 1)))) example_input
        = Inr \<lparr>shape = [1, 2], data = [0, 0]\<rparr>) \<and>
   (\<exists>ca cb lin.
      actor_base (example_net (ValueActivation (- 1))) = conv_stack ReLU ca \<and>
      baseline (example_net (ValueActivation (- 1))) =
        conv_stack ReLU cb @ [AdaptiveAvgPool2d, Flatten, Linear lin, ValueActivation (- 1)] \<and>
      length ca = 1 \<and> length cb = 1)"
proof -
  let ?net = "example_net (ValueActivation (- 1))"
  let ?s = "\<lparr>net = ?net, rng = zero_generator\<rparr>"
  let ?out = "\<lparr>out_actions = [(''worker'', \<lparr>shape = [1, 1, 1, 1, 2], data = [0, 0]\<rparr>)],
         out_policy_logits = [(''worker'', \<lparr>shape = [1, 1, 1, 1, 2, 2], data = [0, 0, 0, 0]\<rparr>)],
         out_baseline = \<lparr>shape = [1, 2], data = [0, 0]\<rparr>\<rparr>"
  have di: "dict_input_layer (net ?s) example_input = Inr (example_input, ())"
    by (simp add: example_net_def example_input_layer_def)
  have bm: "base_model (net ?s) (example_input, ()) = Inr (example_input, ())"
    by (simp add: example_net_def example_base_model_def)
  have run: "forward ?s example_input False = Inr (?out, ?s)"
    by (rule example_best)
  have init: "BasicActorCriticNetwork_init example_input_layer example_base_model 1
                example_spaces ReLU 2 (ValueActivation (- 1)) zero_generator
              = Inr (?net, \<lparr>variates = (\<lambda>i. 0), position = 12\<rparr>)"
    using example_network_eq [of "ValueActivation (- 1)"] by (simp only: example_network_def)
  from forward_shares_trunk
    [of ?s example_input example_input "()" example_input "()" False ?out ?s,
     THEN conjunct1, rule_format, OF conjI [OF di bm], THEN iffD1, OF run]
  obtain hidden g' where
    "Sequential_forward (actor_base (net ?s)) example_input = Inr hidden"
    "DictActor_forward (actor (net ?s)) hidden False (rng ?s) =
       Inr ((out_policy_logits ?out, out_actions ?out), g')"
    "Sequential_forward (baseline (net ?s)) example_input = Inr (out_baseline ?out)"
    by blast
  then have 1: "\<exists>hidden g'.
      Sequential_forward (actor_base ?net) example_input = Inr hidden \<and>
      DictActor_forward (actor ?net) hidden False zero_generator =
        Inr (([(''worker'', \<lparr>shape = [1, 1, 1, 1, 2, 2], data = [0, 0, 0, 0]\<rparr>)],
              [(''worker'', \<lparr>shape = [1, 1, 1, 1, 2], data = [0, 0]\<rparr>)]), g') \<and>
      Sequential_forward (baseline ?net) example_input = Inr \<lparr>shape = [1, 2], data = [0, 0]\<rparr>"
    by simp
  from forward_shares_trunk
    [where act = ReLU and final = "ValueActivation (- 1)" and n = 2,
     THEN conjunct2, rule_format, OF init]
  obtain ca cb lin where
    "actor_base ?net = conv_stack ReLU ca"
    "baseline ?net = conv_stack ReLU cb @ [AdaptiveAvgPool2d, Flatten, Linear lin, ValueActivation (- 1)]"
    "length ca = nat (2 - 1)" "length cb = nat (2 - 1)"
    by blast
  moreover have "nat (2 - 1) = 1" by simp
  ultimately have 2: "\<exists>ca cb lin.
      actor_base ?net = conv_stack ReLU ca \<and>
      baseline ?net =
        conv_stack ReLU cb @ [AdaptiveAvgPool2d, Flatten, Linear lin, ValueActivation (- 1)] \<and>
      length ca = 1 \<and> length cb = 1"
    by metis
  from 1 2 show ?thesis by (rule conjI)
qed

text \<open>
  Claim C1, as amended. For a network built by the constructor with a
  \<open>ValueActivation\<close> as final activation and a shape-preserving activation in the
  heads, the \<open>baseline\<close> entry that \<open>forward\<close> returns for a trunk output of batch size
  \<open>b\<close> has shape \<open>(b, 2)\<close>: two values per batch element, the two outputs of
  \<open>nn.Linear(base_out_channels, 2)\<close>. With the default \<open>ValueActivation (- 1)\<close>, a valid
  action space and a trunk output of shape \<open>(b, base_out_channels, h, w)\<close> with positive
  \<open>base_out_channels\<close>, \<open>h\<close> and \<open>w\<close>, \<open>forward\<close> does return.
\<close>

theorem baseline_two_values_per_state:
  "BasicActorCriticNetwork_init di bm c spaces act n (ValueActivation axis) g0 = Inr (network, g1) \<and>
   shape_preserving act \<and> net s = network \<and>
   di x = Inr (obs, input_mask) \<and> bm (obs, input_mask) = Inr (base_out, aux) \<and>
   shape base_out = [b, c', h, w] \<longrightarrow>
     (forward s x sample = Inr (out, s') \<longrightarrow>
        shape (out_baseline out) = [b, 2] \<and> length (data (out_baseline out)) = b * 2) \<and>
     (gym_dict spaces \<and> c' = c \<and> 0 < c \<and> 0 < h \<and> 0 < w \<and> axis = - 1 \<longrightarrow>
        (\<exists>out s'. forward s x sample = Inr (out, s')))"
proof (intro impI conjI)
  assume a: "BasicActorCriticNetwork_init di bm c spaces act n (ValueActivation axis) g0
               = Inr (network, g1) \<and>
   shape_preserving act \<and> net s = network \<and>
   di x = Inr (obs, input_mask) \<and> bm (obs, input_mask) = Inr (base_out, aux) \<and>
   shape base_out = [b, c', h, w]"
  then have init: "BasicActorCriticNetwork_init di bm c spaces act n (ValueActivation axis) g0
               = Inr (network, g1)"
    and act: "shape_preserving act" and s: "net s = network"
    and di: "di x = Inr (obs, input_mask)" and bm: "bm (obs, input_mask) = Inr (base_out, aux)"
    and sb: "shape base_out = [b, c', h, w]" by simp_all
  {
    assume run: "forward s x sample = Inr (out, s')"
    from baseline_value_source [OF init s run] di bm obtain cb x1 b' c'' h' w' z where
      x1: "Sequential_forward (conv_stack act cb) base_out = Inr x1" and
      s1: "shape x1 = [b', c'', h', w']" and sz: "shape z = [b', 2]" and
      v: "ValueActivation_forward axis z = Inr (out_baseline out)"
      by auto
    from conv_stack_forward_shape [OF act x1 sb] s1 have "b' = b" by auto
    with ValueActivation_forward_shape [OF v] sz
    show "shape (out_baseline out) = [b, 2]" and "length (data (out_baseline out)) = b * 2"
      by simp_all
  }
  assume "gym_dict spaces \<and> c' = c \<and> 0 < c \<and> 0 < h \<and> 0 < w \<and> axis = - 1"
  with forward_returns [of di bm c spaces act n g0 network g1 s x obs input_mask base_out aux b h w
         sample] init act s di bm sb
  show "\<exists>out s'. forward s x sample = Inr (out, s')" by simp
qed

theorem baseline_two_values_per_state_witness:
  "\<exists>out s'.
      forward \<lparr>net = example_net (ValueActivation (- 1)), rng = zero_generator\<rparr> example_input True
        = Inr (out, s') \<and>
      shape (out_baseline out) = [1, 2] \<and> length (data (out_baseline out)) = 2"
proof -
  let ?net = "example_net (ValueActivation (- 1))"
  let ?s = "\<lparr>net = ?net, rng = zero_generator\<rparr>"
  have init: "BasicActorCriticNetwork_init example_input_layer example_base_model 1
                example_spaces ReLU 2 (ValueActivation (- 1)) zero_generator
              = Inr (?net, \<lparr>variates = (\<lambda>i. 0), position = 12\<rparr>)"
    using example_network_eq [of "ValueActivation (- 1)"] by (simp only: example_network_def)
  have hyp: "BasicActorCriticNetwork_init example_input_layer example_base_model 1
                example_spaces ReLU 2 (ValueActivation (- 1)) zero_generator
              = Inr (?net, \<lparr>variates = (\<lambda>i. 0), position = 12\<rparr>) \<and>
     shape_preserving ReLU \<and> net ?s = ?net \<and>
     example_input_layer example_input = Inr (example_input, ()) \<and>
     example_base_model (example_input, ()) = Inr (example_input, ()) \<and>
     shape example_input = [1, 1, 1, 2]"
    using init ReLU_shape_preserving example_input_shape
    by (simp add: example_input_layer_def example_base_model_def)
  note inst = baseline_two_values_per_state
    [where sample = True and s = ?s, THEN mp, OF hyp]
  from inst [THEN conjunct2] example_gym_dict
  obtain out s' where run: "forward ?s example_input True = Inr (out, s')" by auto
  from baseline_two_values_per_state
    [where sample = True and s = ?s and out = out and s' = s', THEN mp, OF hyp, THEN conjunct1] run
  have "shape (out_baseline out) = [1, 2] \<and> length (data (out_baseline out)) = 2" by simp
  with run show ?thesis by blast
qed

text \<open>
  Claim C1 as stated fails: for a batch of one state, the network built with the
  defaults of the constructor returns a baseline of shape \<open>(1, 2)\<close>, two values for the
  one batch element.
\<close>

theorem baseline_not_scalar_counterexample:
  "example_network (ValueActivation (- 1)) =
     Inr (example_net (ValueActivation (- 1)), \<lparr>variates = (\<lambda>i. 0), position = 12\<rparr>) \<and>
   shape example_input = [1, 1, 1, 2] \<and>
   forward \<lparr>net = example_net (ValueActivation (- 1)), rng = zero_generator\<rparr> example_input False =
   Inr (\<lparr>out_actions = [(''worker'', \<lparr>shape = [1, 1, 1, 1, 2], data = [0, 0]\<rparr>)],
         out_policy_logits = [(''worker'', \<lparr>shape = [1, 1, 1, 1, 2, 2], data = [0, 0, 0, 0]\<rparr>)],
         out_baseline = \<lparr>shape = [1, 2], data = [0, 0]\<rparr>\<rparr>,
        \<lparr>net = example_net (ValueActivation (- 1)), rng = zero_generator\<rparr>)"
  using example_network_eq [of "ValueActivation (- 1)"] example_input_shape
    example_best [of zero_generator]
  by simp

text \<open>
  Claim C9. \<open>select_best_actions\<close> does not depend on the random number generator: from
  any two generator states it returns the same output (or raises the same error), and
  it leaves the generator as it was. \<open>sample_actions\<close> does depend on it: on the example
  network, two generators give different outputs.
\<close>

theorem select_best_actions_deterministic:
  "map_sum (\<lambda>e. e) fst (select_best_actions (s\<lparr>rng := g1\<rparr>) x) =
   map_sum (\<lambda>e. e) fst (select_best_actions (s\<lparr>rng := g2\<rparr>) x) \<and>
   (select_best_actions s x = Inr (out, s') \<longrightarrow> s' = s) \<and>
   map_sum (\<lambda>e. e) fst
     (sample_actions \<lparr>net = example_net (ValueActivation (- 1)), rng = constant_generator 0\<rparr>
        example_input) \<noteq>
   map_sum (\<lambda>e. e) fst
     (sample_actions \<lparr>net = example_net (ValueActivation (- 1)), rng = constant_generator (3 / 4)\<rparr>
        example_input)"
proof (intro conjI impI)
  show "map_sum (\<lambda>e. e) fst (select_best_actions (s\<lparr>rng := g1\<rparr>) x) =
        map_sum (\<lambda>e. e) fst (select_best_actions (s\<lparr>rng := g2\<rparr>) x)"
    unfolding select_best_actions_def
    by (subst forward_best [where s = s and g = g1 and x = x and ?g0.0 = g2]) (simp split: sum.splits prod.splits)
next
  assume "select_best_actions s x = Inr (out, s')"
  then have "forward (s\<lparr>rng := rng s\<rparr>) x False = Inr (out, s')"
    by (simp add: select_best_actions_def)
  then show "s' = s"
    by (subst (asm) forward_best [where s = s and g = "rng s" and x = x and ?g0.0 = "rng s"]) (auto split: sum.splits prod.splits)
next
  show "map_sum (\<lambda>e. e) fst
     (sample_actions \<lparr>net = example_net (ValueActivation (- 1)), rng = constant_generator 0\<rparr>
        example_input) \<noteq>
   map_sum (\<lambda>e. e) fst
     (sample_actions \<lparr>net = example_net (ValueActivation (- 1)), rng = constant_generator (3 / 4)\<rparr>
        example_input)"
    unfolding sample_actions_def
    by (simp add: example_sampled [of 0] example_sampled [of "3 / 4"])
qed

theorem select_best_actions_deterministic_witness:
  "select_best_actions \<lparr>net = example_net (ValueActivation (- 1)), rng = constant_generator 0\<rparr>
     example_input =
   Inr (\<lparr>out_actions = [(''worker'', \<lparr>shape = [1, 1, 1, 1, 2], data = [0, 0]\<rparr>)],
         out_policy_logits = [(''worker'', \<lparr>shape = [1, 1, 1, 1, 2, 2], data = [0, 0, 0, 0]\<rparr>)],
         out_baseline = \<lparr>shape = [1, 2], data = [0, 0]\<rparr>\<rparr>,
        \<lparr>net = example_net (ValueActivation (- 1)), rng = constant_generator 0\<rparr>) \<and>
   map_sum (\<lambda>e. e) fst
     (select_best_actions
        \<lparr>net = example_net (ValueActivation (- 1)), rng = constant_generator (3 / 4)\<rparr>
        example_input) =
   Inr \<lparr>out_actions = [(''worker'', \<lparr>shape = [1, 1, 1, 1, 2], data = [0, 0]\<rparr>)],
        out_policy_logits = [(''worker'', \<lparr>shape = [1, 1, 1, 1, 2, 2], data = [0, 0, 0, 0]\<rparr>)],
        out_baseline = \<lparr>shape = [1, 2], data = [0, 0]\<rparr>\<rparr>"
proof -
  let ?net = "example_net (ValueActivation (- 1))"
  let ?s = "\<lparr>net = ?net, rng = constant_generator 0\<rparr>"
  have run: "select_best_actions ?s example_input =
   Inr (\<lparr>out_actions = [(''worker'', \<lparr>shape = [1, 1, 1, 1, 2], data = [0, 0]\<rparr>)],
         out_policy_logits = [(''worker'', \<lparr>shape = [1, 1, 1, 1, 2, 2], data = [0, 0, 0, 0]\<rparr>)],
         out_baseline = \<lparr>shape = [1, 2], data = [0, 0]\<rparr>\<rparr>, ?s)"
    unfolding select_best_actions_def by (rule example_best)
  from select_best_actions_deterministic
    [where s = ?s and ?g1.0 = "constant_generator (3 / 4)" and x = example_input
       and ?g2.0 = "constant_generator 0", THEN conjunct1]
  have "map_sum (\<lambda>e. e) fst
          (select_best_actions \<lparr>net = ?net, rng = constant_generator (3 / 4)\<rparr> example_input) =
        map_sum (\<lambda>e. e) fst (select_best_actions ?s example_input)"
    by simp
  with run show ?thesis by simp
qed



text \<open>
  Claim C8, as amended. \<open>ValueActivation.forward\<close> computes \<open>2 * softmax(x, dim) - 1\<close>, so
  every component of what it returns lies in the closed interval from \<open>-1\<close> to 1, the
  interval of the source's comment (\<open>Rescale to [-1, 1]\<close>). So does every component of the
  baseline of a network built with a \<open>ValueActivation\<close> as final activation, whatever its
  dimension. The bounds are not strict and nothing is said of the sum along the softmax
  dimension: see the run below.
\<close>

theorem ValueActivation_range:
  "(ValueActivation_forward axis x = Inr y \<longrightarrow>
      (\<exists>p. softmax x axis = Inr p \<and> shape y = shape p \<and>
           data y = map (\<lambda>v. 2 * v - 1) (data p)) \<and>
      (\<forall>v\<in>set (data y). - 1 \<le> v \<and> v \<le> 1)) \<and>
   (BasicActorCriticNetwork_init di bm c spaces act n (ValueActivation axis) g0
      = Inr (network, g1) \<and>
    net s = network \<and> forward s input sample = Inr (out, s') \<longrightarrow>
      (\<forall>v\<in>set (data (out_baseline out)). - 1 \<le> v \<and> v \<le> 1))"
proof (intro conjI impI)
  assume v: "ValueActivation_forward axis x = Inr y"
  from ValueActivation_forward_bounds(1) [OF v]
  show "\<exists>p. softmax x axis = Inr p \<and> shape y = shape p \<and>
           data y = map (\<lambda>v. 2 * v - 1) (data p)" .
  from ValueActivation_forward_bounds(2) [OF v]
  show "\<forall>v\<in>set (data y). - 1 \<le> v \<and> v \<le> 1" .
next
  assume a: "BasicActorCriticNetwork_init di bm c spaces act n (ValueActivation axis) g0
      = Inr (network, g1) \<and>
    net s = network \<and> forward s input sample = Inr (out, s')"
  from baseline_value_source [OF conjunct1 [OF a] conjunct1 [OF conjunct2 [OF a]]
         conjunct2 [OF conjunct2 [OF a]]]
  obtain z where v: "ValueActivation_forward axis z = Inr (out_baseline out)"
    by auto
  from ValueActivation_forward_bounds(2) [OF v]
  show "\<forall>v\<in>set (data (out_baseline out)). - 1 \<le> v \<and> v \<le> 1" .
qed

theorem ValueActivation_range_witness:
  "ValueActivation_forward (- 1) \<lparr>shape = [1, 2], data = [0, 0]\<rparr> =
     Inr \<lparr>shape = [1, 2], data = [0, 0]\<rparr> \<and>
   list_all (\<lambda>v. - 1 \<le> v \<and> v \<le> 1) [0, 0 :: real] \<and>
   (\<exists>out s'.
      forward \<lparr>net = example_net (ValueActivation (- 1)), rng = zero_generator\<rparr> example_input True
        = Inr (out, s') \<and>
      out_baseline out = \<lparr>shape = [1, 2], data = [0, 0]\<rparr> \<and>
      list_all (\<lambda>v. - 1 \<le> v \<and> v \<le> 1) (data (out_baseline out)))"
proof -
  let ?net = "example_net (ValueActivation (- 1))"
  let ?s = "\<lparr>net = ?net, rng = zero_generator\<rparr>"
  let ?y = "\<lparr>shape = [1, 2], data = [0, 0 :: real]\<rparr>"
  have ex: "ValueActivation_forward (- 1) ?y = Inr ?y"
    by (simp add: ValueActivation_forward_def softmax_def normalize_dim_def indices_def
        entry_def two)
  from ValueActivation_range
    [where axis = "- 1" and x = ?y and y = ?y, THEN conjunct1, rule_format, OF ex]
  have "\<forall>v\<in>set (data ?y). - 1 \<le> v \<and> v \<le> 1" by (rule conjunct2)
  then have 1: "list_all (\<lambda>v. - 1 \<le> v \<and> v \<le> 1) [0, 0 :: real]"
    by (simp add: list_all_iff)
  have init: "BasicActorCriticNetwork_init example_input_layer example_base_model 1
                example_spaces ReLU 2 (ValueActivation (- 1)) zero_generator
              = Inr (?net, \<lparr>variates = (\<lambda>i. 0), position = 12\<rparr>)"
    using example_network_eq [of "ValueActivation (- 1)"] by (simp only: example_network_def)
  have run: "forward ?s example_input True =
    Inr (\<lparr>out_actions = [(''worker'', \<lparr>shape = [1, 1, 1, 1, 2], data = [0, 0]\<rparr>)],
         out_policy_logits = [(''worker'', \<lparr>shape = [1, 1, 1, 1, 2, 2], data = [0, 0, 0, 0]\<rparr>)],
         out_baseline = \<lparr>shape = [1, 2], data = [0, 0]\<rparr>\<rparr>,
        \<lparr>net = ?net, rng = \<lparr>variates = (\<lambda>i. 0), position = 2\<rparr>\<rparr>)"
    using example_sampled [of 0] by (simp add: constant_generator_def zero_generator_def)
  have s: "net ?s = ?net" by simp
  note r = ValueActivation_range
    [where s = ?s and sample = True and act = ReLU and n = 2 and axis = "- 1",
     THEN conjunct2, rule_format, OF conjI [OF init conjI [OF s run]]]
  from r run have "\<exists>out s'.
      forward ?s example_input True = Inr (out, s') \<and>
      out_baseline out = \<lparr>shape = [1, 2], data = [0, 0]\<rparr> \<and>
      list_all (\<lambda>v. - 1 \<le> v \<and> v \<le> 1) (data (out_baseline out))"
    by (simp add: list_all_iff)
  with ex 1 show ?thesis by blast
qed

text \<open>
  Claim C8 as stated fails for a network built with \<open>ValueActivation 0\<close> as final
  activation: on a batch of one state the softmax runs over a dimension with a single
  entry, so both components of the baseline are exactly 1, not strictly inside the
  interval, and the one component along the softmax dimension does not sum to 0.
\<close>

theorem ValueActivation_batch_axis_counterexample:
  "example_network (ValueActivation 0) =
     Inr (example_net (ValueActivation 0), \<lparr>variates = (\<lambda>i. 0), position = 12\<rparr>) \<and>
   forward \<lparr>net = example_net (ValueActivation 0), rng = zero_generator\<rparr> example_input False =
   Inr (\<lparr>out_actions = [(''worker'', \<lparr>shape = [1, 1, 1, 1, 2], data = [0, 0]\<rparr>)],
         out_policy_logits = [(''worker'', \<lparr>shape = [1, 1, 1, 1, 2, 2], data = [0, 0, 0, 0]\<rparr>)],
         out_baseline = \<lparr>shape = [1, 2], data = [1, 1]\<rparr>\<rparr>,
        \<lparr>net = example_net (ValueActivation 0), rng = zero_generator\<rparr>)"
  using example_network_eq [of "ValueActivation 0"] example_batch_axis [of zero_generator]
  by simp

end
